theory Spec2Isabelle
  imports Complex_Main
begin

section \<open>Data model\<close>

text \<open>
  The values that the decoded upstream JSON puts into the fields of a booking. A
  number is given by its value as a rational number.
\<close>

datatype jsval = JUndefined | JNull | JBool bool | JNum rat | JStr string

text \<open>
  A booking record with the fields the aggregation code reads:
  \<^verbatim>\<open>b.id\<close>, \<^verbatim>\<open>b.status\<close>, \<^verbatim>\<open>b.arrival\<close>, \<^verbatim>\<open>b.departure\<close>, \<^verbatim>\<open>b.price\<close>,
  \<^verbatim>\<open>b.deposit\<close>. A field that is absent reads as \<open>JUndefined\<close>.
\<close>

record booking =
  id' :: jsval
  status :: jsval
  arrival :: jsval
  departure :: jsval
  price :: jsval
  deposit :: jsval

section \<open>Merging by identifier\<close>

text \<open>
  A JavaScript \<^verbatim>\<open>Map\<close> keeps its keys in the order of their first insertion;
  \<^verbatim>\<open>set\<close> on a key that is present replaces the value in place, \<^verbatim>\<open>values()\<close>
  lists the values in key order. The model is an association list.
\<close>

type_synonym ('k, 'v) jsmap = "('k \<times> 'v) list"

fun map_set :: "'k \<Rightarrow> 'v \<Rightarrow> ('k, 'v) jsmap \<Rightarrow> ('k, 'v) jsmap" where
  "map_set k v [] = [(k, v)]"
| "map_set k v (p # ps) = (if fst p = k then (k, v) # ps else p # map_set k v ps)"

definition map_values :: "('k, 'v) jsmap \<Rightarrow> 'v list" where
  "map_values m = map snd m"

text \<open>
  \<^verbatim>\<open>const bookingMap = new Map(); xs.forEach(b => bookingMap.set(b.id, b));\<close>
  \<^verbatim>\<open>Array.from(bookingMap.values())\<close>
\<close>

definition bookingMap :: "('a booking_scheme) list \<Rightarrow> (jsval, 'a booking_scheme) jsmap" where
  "bookingMap xs = fold (\<lambda>b m. map_set (id' b) b m) xs []"

text \<open>
  The default listing of \<^verbatim>\<open>/getBookings\<close>:
  \<^verbatim>\<open>[...pastResult.bookings, ...futureResult.bookings].forEach(b => bookingMap.set(b.id, b))\<close>.
\<close>

definition getBookings_merge ::
  "('a booking_scheme) list \<Rightarrow> ('a booking_scheme) list \<Rightarrow> ('a booking_scheme) list" where
  "getBookings_merge pastBookings futureBookings =
     map_values (bookingMap (pastBookings @ futureBookings))"

text \<open>
  \<^verbatim>\<open>/dashboard/bookings\<close> (src/index.js) removes duplicates with a set of the
  identifiers already seen:
  \<^verbatim>\<open>allBookings.filter(b => { if (seen.has(b.id)) return false; seen.add(b.id); return true; })\<close>
\<close>

fun seen_filter :: "jsval set \<Rightarrow> ('a booking_scheme) list \<Rightarrow> ('a booking_scheme) list" where
  "seen_filter seen [] = []"
| "seen_filter seen (b # bs) =
     (if id' b \<in> seen then seen_filter seen bs
      else b # seen_filter (insert (id' b) seen) bs)"

definition uniqueBookings ::
  "('a booking_scheme) list \<Rightarrow> ('a booking_scheme) list \<Rightarrow> ('a booking_scheme) list" where
  "uniqueBookings currentData futureData = seen_filter {} (currentData @ futureData)"

text \<open>Every entry of the map is stored under the identifier of its record.\<close>

definition keyed :: "(jsval, 'a booking_scheme) jsmap \<Rightarrow> bool" where
  "keyed m \<longleftrightarrow> (\<forall>p \<in> set m. id' (snd p) = fst p)"

section \<open>The pagination walker\<close>

text \<open>A thrown JavaScript \<^verbatim>\<open>Error\<close> with its message.\<close>

datatype error = Error string

text \<open>
  A query parameter of a request (\<^verbatim>\<open>req.query.q\<close>), or a string field of a decoded
  payload: absent, or a string. It is truthy when it is present and not the empty
  string.
\<close>

type_synonym query_param = "string option"

definition truthy :: "query_param \<Rightarrow> bool" where
  "truthy q \<longleftrightarrow> (case q of None \<Rightarrow> False | Some s \<Rightarrow> s \<noteq> [])"

text \<open>
  The parameter object of an upstream query, in insertion order;
  \<^verbatim>\<open>{ ...params, page: currentPage }\<close> is \<open>map_set ''page'' \<dots> params\<close>.
\<close>

type_synonym params = "(string, jsval) jsmap"

text \<open>
  What \<^verbatim>\<open>fetchAllBookingPages\<close> reads of one upstream result:
  \<^verbatim>\<open>result.data.data || result.data || []\<close> as the records of the page, and
  \<^verbatim>\<open>(result.data.pages || {}).nextPageExists === true\<close>.
\<close>

record 'b page =
  pageBookings :: "'b list"
  nextPageExists :: bool

text \<open>
  \<^verbatim>\<open>fetchBeds24('bookings', pageParams)\<close> as the walker sees it: a call with a
  parameter object, in a state \<open>'u\<close> of the world (the remote service and the flags
  of the client), that throws or returns a page, and leaves a new state.
\<close>

type_synonym ('u, 'b) upstream = "params \<Rightarrow> 'u \<Rightarrow> (error + 'b page) \<times> 'u"

text \<open>
  What the walker does, in order: an upstream call with its parameter object, or the
  50 ms pause \<^verbatim>\<open>await new Promise(resolve => setTimeout(resolve, 50))\<close>.
\<close>

datatype event = Fetch params | Delay

fun is_fetch :: "event \<Rightarrow> bool" where
  "is_fetch (Fetch _) = True"
| "is_fetch Delay = False"

definition fetches :: "event list \<Rightarrow> nat" where
  "fetches t = length (filter is_fetch t)"

definition delays :: "event list \<Rightarrow> nat" where
  "delays t = length (filter (\<lambda>e. \<not> is_fetch e) t)"

text \<open>The variables of the loop, with the state of the world and the events so far.\<close>

record ('u, 'b) walk =
  allBookings :: "'b list"
  currentPage :: nat
  hasMorePages :: bool
  totalPages :: nat
  world :: 'u
  trace :: "event list"

text \<open>
  \<^verbatim>\<open>while (hasMorePages && currentPage <= maxPages) { ... }\<close>. A throwing upstream call
  leaves the loop with the error; the state returned with it holds the events up to
  the throw.
\<close>

function fetch_loop ::
  "('u, 'b) upstream \<Rightarrow> params \<Rightarrow> nat \<Rightarrow> ('u, 'b) walk \<Rightarrow> error option \<times> ('u, 'b) walk" where
  "fetch_loop fetchBeds24 ps maxPages w =
     (if hasMorePages w \<and> currentPage w \<le> maxPages then
        (let pageParams = map_set ''page'' (JNum (of_nat (currentPage w))) ps;
             w1 = w\<lparr>trace := trace w @ [Fetch pageParams]\<rparr>
         in case fetchBeds24 pageParams (world w) of
              (Inl e, u) \<Rightarrow> (Some e, w1\<lparr>world := u\<rparr>)
            | (Inr result, u) \<Rightarrow>
                (let w2 = w1\<lparr>world := u,
                              allBookings := allBookings w @ pageBookings result,
                              hasMorePages := nextPageExists result\<rparr>
                 in if nextPageExists result
                    then fetch_loop fetchBeds24 ps maxPages
                           (w2\<lparr>currentPage := currentPage w + 1,
                               totalPages := currentPage w + 1,
                               trace := trace w2 @ [Delay]\<rparr>)
                    else fetch_loop fetchBeds24 ps maxPages w2))
      else (None, w))"
  by pat_completeness auto
termination
  by (relation "measure (\<lambda>(f, ps, maxPages, w).
        if hasMorePages w then Suc maxPages - currentPage w else 0)") auto

definition walk_init :: "'u \<Rightarrow> ('u, 'b) walk" where
  "walk_init u =
     \<lparr>allBookings = [], currentPage = 1, hasMorePages = True, totalPages = 1,
      world = u, trace = []\<rparr>"

text \<open>The run of \<^verbatim>\<open>fetchAllBookingPages(params, maxPages)\<close> with its final loop state.\<close>

definition fetchAllBookingPages_run ::
  "('u, 'b) upstream \<Rightarrow> params \<Rightarrow> nat \<Rightarrow> 'u \<Rightarrow> error option \<times> ('u, 'b) walk" where
  "fetchAllBookingPages_run fetchBeds24 ps maxPages u =
     fetch_loop fetchBeds24 ps maxPages (walk_init u)"

text \<open>\<^verbatim>\<open>return { bookings: allBookings, totalPages };\<close>\<close>

record 'b walked =
  bookings :: "'b list"
  totalPages' :: nat

definition fetchAllBookingPages ::
  "('u, 'b) upstream \<Rightarrow> params \<Rightarrow> nat \<Rightarrow> 'u \<Rightarrow> (error + 'b walked) \<times> 'u \<times> event list" where
  "fetchAllBookingPages fetchBeds24 ps maxPages u =
     (case fetchAllBookingPages_run fetchBeds24 ps maxPages u of
        (Some e, w) \<Rightarrow> (Inl e, world w, trace w)
      | (None, w) \<Rightarrow>
          (Inr \<lparr>bookings = allBookings w, totalPages' = totalPages w\<rparr>, world w, trace w))"

text \<open>
  The parameter object of the request for the page the loop is at.
\<close>

definition page_params :: "params \<Rightarrow> ('u, 'b) walk \<Rightarrow> params" where
  "page_params ps w = map_set ''page'' (JNum (of_nat (currentPage w))) ps"

text \<open>The loop variables after a page whose response announces a next page.\<close>

definition next_walk :: "params \<Rightarrow> ('u, 'b) walk \<Rightarrow> 'b page \<Rightarrow> 'u \<Rightarrow> ('u, 'b) walk" where
  "next_walk ps w res u =
     w\<lparr>world := u, allBookings := allBookings w @ pageBookings res,
       hasMorePages := True, currentPage := Suc (currentPage w),
       totalPages := Suc (currentPage w),
       trace := trace w @ [Fetch (page_params ps w), Delay]\<rparr>"

text \<open>
  The loop invariant: \<open>totalPages\<close> follows \<open>currentPage\<close>, one pause was made for
  every increment of the page, and the last event tells whether the upstream
  announced a next page.
\<close>

definition walk_inv :: "('u, 'b) walk \<Rightarrow> bool" where
  "walk_inv w \<longleftrightarrow>
     totalPages w = currentPage w \<and> currentPage w = Suc (delays (trace w)) \<and>
     (if hasMorePages w
      then fetches (trace w) = delays (trace w) \<and> (trace w = [] \<or> last (trace w) = Delay)
      else fetches (trace w) = Suc (delays (trace w)))"

text \<open>The events of one page that announces a next page: the call, then the pause.\<close>

definition page_events :: "params \<Rightarrow> nat \<Rightarrow> event list" where
  "page_events ps p = [Fetch (map_set ''page'' (JNum (of_nat p)) ps), Delay]"

text \<open>A synthetic upstream that always reports that a next page exists.\<close>

definition always_next :: "(unit, nat) upstream" where
  "always_next p u = (Inr \<lparr>pageBookings = [0], nextPageExists = True\<rparr>, u)"

text \<open>A synthetic upstream with two pages: only the first page announces a next one.\<close>

definition two_pages :: "(unit, nat) upstream" where
  "two_pages p u =
     (Inr \<lparr>pageBookings = [0], nextPageExists = (map_of p ''page'' = Some (JNum 1))\<rparr>, u)"

section \<open>Cancellation filter and view assemblers\<close>

text \<open>\<^verbatim>\<open>b => b.status !== 'cancelled'\<close>\<close>

definition not_cancelled :: "'a booking_scheme \<Rightarrow> bool" where
  "not_cancelled b \<longleftrightarrow> status b \<noteq> JStr ''cancelled''"

text \<open>
  The assemblers below are the handlers after their upstream calls have returned:
  their arguments are the arrays read from the results
  (\<^verbatim>\<open>currentResult.data.data || []\<close>, \<^verbatim>\<open>result.bookings\<close>), their values the collections
  and counts of the JSON response.
\<close>

record 'a overview =
  ov_occupied :: nat
  ov_checkIns :: nat
  ov_checkOuts :: nat
  ov_current :: "'a list"
  ov_arrivals :: "'a list"
  ov_departures :: "'a list"

text \<open>\<^verbatim>\<open>app.get('/api/overview')\<close>\<close>

definition overview_view ::
  "'a booking_scheme list \<Rightarrow> 'a booking_scheme list \<Rightarrow> 'a booking_scheme list
     \<Rightarrow> 'a booking_scheme overview" where
  "overview_view current arrivals departures =
     (let activeBookings = filter not_cancelled current;
          todayArrivals = filter not_cancelled arrivals;
          todayDepartures = filter not_cancelled departures
      in \<lparr>ov_occupied = length activeBookings, ov_checkIns = length todayArrivals,
          ov_checkOuts = length todayDepartures, ov_current = activeBookings,
          ov_arrivals = todayArrivals, ov_departures = todayDepartures\<rparr>)"

text \<open>
  \<^verbatim>\<open>app.get('/api/calendar')\<close>: the three arrays are concatenated, filtered, and folded
  into the \<^verbatim>\<open>Map\<close>.
\<close>

definition calendar_view ::
  "'a booking_scheme list \<Rightarrow> 'a booking_scheme list \<Rightarrow> 'a booking_scheme list
     \<Rightarrow> 'a booking_scheme list" where
  "calendar_view arrivalsBookings departuresBookings current =
     map_values (bookingMap
       (filter not_cancelled (arrivalsBookings @ departuresBookings @ current)))"

record 'a movements =
  mv_checkIns :: "'a list"
  mv_checkIns_count :: nat
  mv_checkOuts :: "'a list"
  mv_checkOuts_count :: nat

text \<open>\<^verbatim>\<open>app.get('/api/movements')\<close>\<close>

definition movements_view ::
  "'a booking_scheme list \<Rightarrow> 'a booking_scheme list \<Rightarrow> 'a booking_scheme movements" where
  "movements_view arrivalsData departuresData =
     (let arrivals = filter not_cancelled arrivalsData;
          departures = filter not_cancelled departuresData
      in \<lparr>mv_checkIns = arrivals, mv_checkIns_count = length arrivals,
          mv_checkOuts = departures, mv_checkOuts_count = length departures\<rparr>)"

record 'a housekeeping =
  hk_occupied :: nat
  hk_departing :: nat
  hk_arriving :: nat
  hk_stayovers_count :: int
  hk_departures :: "'a list"
  hk_arrivals :: "'a list"
  hk_stayovers :: "'a list"

text \<open>
  \<^verbatim>\<open>app.get('/api/housekeeping')\<close>. The count \<^verbatim>\<open>summary.stayovers\<close> is
  \<^verbatim>\<open>current.length - departures.length\<close>, a difference of two JavaScript numbers;
  the list \<^verbatim>\<open>stayovers\<close> is \<^verbatim>\<open>current.filter(c => c.departure !== date)\<close>.
\<close>

definition housekeeping_view ::
  "string \<Rightarrow> 'a booking_scheme list \<Rightarrow> 'a booking_scheme list \<Rightarrow> 'a booking_scheme list
     \<Rightarrow> 'a booking_scheme housekeeping" where
  "housekeeping_view date currentData departuresData arrivalsData =
     (let current = filter not_cancelled currentData;
          departures = filter not_cancelled departuresData;
          arrivals = filter not_cancelled arrivalsData
      in \<lparr>hk_occupied = length current, hk_departing = length departures,
          hk_arriving = length arrivals,
          hk_stayovers_count = int (length current) - int (length departures),
          hk_departures = departures, hk_arrivals = arrivals,
          hk_stayovers = filter (\<lambda>c. departure c \<noteq> JStr date) current\<rparr>)"

section \<open>Revenue totals\<close>

text \<open>
  A JavaScript number is an IEEE 754 double: not-a-number, an infinity, or a finite
  value \<open>m * 2 ^ e\<close> with \<open>\<bar>m\<bar> < 2 ^ 53\<close> and \<open>- 1074 \<le> e \<le> 971\<close>, kept here as the
  rational number it denotes. The sign of a zero is not kept: the revenue code adds
  to a total that starts at \<open>+0\<close>, tests \<^verbatim>\<open>x || 0\<close> and subtracts two totals, and none
  of these tells \<open>-0\<close> from \<open>+0\<close>.
\<close>

datatype jsnum = NaN | Fin rat | PosInf | NegInf

text \<open>The number of binary digits of a positive integer.\<close>

function bit_length :: "int \<Rightarrow> int" where
  "bit_length n = (if n \<le> 0 then 0 else 1 + bit_length (n div 2))"
  by pat_completeness auto
termination
  by (relation "measure nat") auto

definition pow2 :: "int \<Rightarrow> rat" where
  "pow2 k = (if 0 \<le> k then 2 ^ nat k else 1 / 2 ^ nat (- k))"

text \<open>For \<open>x > 0\<close>, the integer \<open>k\<close> with \<open>2 ^ k \<le> x < 2 ^ (k + 1)\<close>.\<close>

definition floor_log2 :: "rat \<Rightarrow> int" where
  "floor_log2 x =
     (if 1 \<le> x then bit_length \<lfloor>x\<rfloor> - 1
      else - bit_length (\<lceil>1 / x\<rceil> - 1))"

text \<open>The nearest integer, and of two nearest ones the even one.\<close>

definition round_half_even :: "rat \<Rightarrow> int" where
  "round_half_even q =
     (let f = \<lfloor>q\<rfloor>; d = q - of_int f
      in if d < 1 / 2 then f else if 1 / 2 < d then f + 1
         else if even f then f else f + 1)"

text \<open>
  The double nearest to a rational number, ties to even: the number is rounded to
  a multiple of \<open>2 ^ e\<close>, where \<open>e\<close> leaves 53 binary digits and is at least \<open>- 1074\<close>;
  a result of magnitude \<open>2 ^ 1024\<close> is an infinity.
\<close>

definition round_double :: "rat \<Rightarrow> jsnum" where
  "round_double x =
     (if x = 0 then Fin 0
      else
        (let e = max (floor_log2 \<bar>x\<bar> - 52) (- 1074);
             y = of_int (round_half_even (x / pow2 e)) * pow2 e
         in if pow2 1024 \<le> y then PosInf
            else if y \<le> - pow2 1024 then NegInf
            else Fin y))"

text \<open>\<^verbatim>\<open>x + y\<close> on numbers: the exact sum of two finite values, rounded.\<close>

fun js_add :: "jsnum \<Rightarrow> jsnum \<Rightarrow> jsnum" where
  "js_add NaN y = NaN"
| "js_add x NaN = NaN"
| "js_add (Fin a) (Fin b) = round_double (a + b)"
| "js_add PosInf NegInf = NaN"
| "js_add NegInf PosInf = NaN"
| "js_add PosInf y = PosInf"
| "js_add x PosInf = PosInf"
| "js_add NegInf y = NegInf"
| "js_add x NegInf = NegInf"

fun js_neg :: "jsnum \<Rightarrow> jsnum" where
  "js_neg NaN = NaN"
| "js_neg (Fin a) = Fin (- a)"
| "js_neg PosInf = NegInf"
| "js_neg NegInf = PosInf"

text \<open>\<^verbatim>\<open>x - y\<close> on numbers.\<close>

definition js_sub :: "jsnum \<Rightarrow> jsnum \<Rightarrow> jsnum" where
  "js_sub x y = js_add x (js_neg y)"

text \<open>\<^verbatim>\<open>x || 0\<close> on a number: not-a-number and zero are falsy.\<close>

definition or_zero :: "jsnum \<Rightarrow> jsnum" where
  "or_zero x = (if x = NaN \<or> x = Fin 0 then Fin 0 else x)"

text \<open>
  The white space and line terminators that \<^verbatim>\<open>parseFloat\<close> skips at the start of a
  string. A string is the list of the bytes of its UTF-8 encoding: the code points
  U+0009 to U+000D and U+0020 are one byte, U+00A0 is the two bytes C2 A0, and
  U+1680, U+2000 to U+200A, U+2028, U+2029, U+202F, U+205F, U+3000 and U+FEFF are
  three bytes. The byte A0 begins no UTF-8 sequence; standing on its own it is
  read as the code point U+00A0 as well.
\<close>

definition is_ws :: "char \<Rightarrow> bool" where
  "is_ws c \<longleftrightarrow>
     c \<in> set [CHR 0x09, CHR 0x0A, CHR 0x0B, CHR 0x0C, CHR 0x0D, CHR 0x20, CHR 0xA0]"

definition ws2 :: "string list" where
  "ws2 = [[CHR 0xC2, CHR 0xA0]]"

definition ws3 :: "string list" where
  "ws3 =
     [[CHR 0xE1, CHR 0x9A, CHR 0x80],
      [CHR 0xE2, CHR 0x80, CHR 0x80], [CHR 0xE2, CHR 0x80, CHR 0x81],
      [CHR 0xE2, CHR 0x80, CHR 0x82], [CHR 0xE2, CHR 0x80, CHR 0x83],
      [CHR 0xE2, CHR 0x80, CHR 0x84], [CHR 0xE2, CHR 0x80, CHR 0x85],
      [CHR 0xE2, CHR 0x80, CHR 0x86], [CHR 0xE2, CHR 0x80, CHR 0x87],
      [CHR 0xE2, CHR 0x80, CHR 0x88], [CHR 0xE2, CHR 0x80, CHR 0x89],
      [CHR 0xE2, CHR 0x80, CHR 0x8A],
      [CHR 0xE2, CHR 0x80, CHR 0xA8], [CHR 0xE2, CHR 0x80, CHR 0xA9],
      [CHR 0xE2, CHR 0x80, CHR 0xAF],
      [CHR 0xE2, CHR 0x81, CHR 0x9F],
      [CHR 0xE3, CHR 0x80, CHR 0x80],
      [CHR 0xEF, CHR 0xBB, CHR 0xBF]]"

fun trim_start :: "string \<Rightarrow> string" where
  "trim_start (a # b # c # t) =
     (if is_ws a then trim_start (b # c # t)
      else if [a, b] \<in> set ws2 then trim_start (c # t)
      else if [a, b, c] \<in> set ws3 then trim_start t
      else a # b # c # t)"
| "trim_start [a, b] =
     (if is_ws a then trim_start [b] else if [a, b] \<in> set ws2 then [] else [a, b])"
| "trim_start [a] = (if is_ws a then [] else [a])"
| "trim_start [] = []"

definition is_digit :: "char \<Rightarrow> bool" where
  "is_digit c \<longleftrightarrow> (48::nat) \<le> of_char c \<and> of_char c \<le> (57::nat)"

definition digit_val :: "char \<Rightarrow> nat" where
  "digit_val c = of_char c - 48"

definition digits_val :: "string \<Rightarrow> nat" where
  "digits_val ds = foldl (\<lambda>a c. 10 * a + digit_val c) 0 ds"

text \<open>The value of a string of decimal digits of any length, as an integer.\<close>

definition decimal :: "string \<Rightarrow> int" where
  "decimal ds = foldl (\<lambda>a c. 10 * a + int (digit_val c)) 0 ds"

text \<open>The value of an exponent part \<^verbatim>\<open>e\<close>, \<^verbatim>\<open>e+\<close>, \<^verbatim>\<open>e-\<close> with digits; 0 without one.\<close>

definition exponent :: "string \<Rightarrow> int" where
  "exponent s =
     (case s of
        [] \<Rightarrow> 0
      | e # t \<Rightarrow>
          if e = CHR ''e'' \<or> e = CHR ''E'' then
            (case t of
               [] \<Rightarrow> 0
             | sg # t' \<Rightarrow>
                 if sg = CHR ''-'' then - decimal (takeWhile is_digit t')
                 else if sg = CHR ''+'' then decimal (takeWhile is_digit t')
                 else decimal (takeWhile is_digit t))
          else 0)"

definition scale :: "rat \<Rightarrow> int \<Rightarrow> rat" where
  "scale x e = (if 0 \<le> e then x * 10 ^ nat e else x / 10 ^ nat (- e))"

text \<open>
  The double of a decimal literal with integer digits \<open>ip\<close>, fraction digits \<open>fp\<close>
  and exponent \<open>ex\<close>: its exact value, rounded. With \<open>ds\<close> the digits from the first
  one that is not 0, the exact value lies between \<open>10 ^ (top - 1)\<close> and \<open>10 ^ top\<close>;
  beyond \<open>10 ^ 400\<close> it rounds to an infinity and below \<open>10 ^ (- 401)\<close> to zero, which
  is decided without computing the power.
\<close>

definition decimal_value :: "string \<Rightarrow> string \<Rightarrow> int \<Rightarrow> jsnum" where
  "decimal_value ip fp ex =
     (let ds = dropWhile (\<lambda>c. c = CHR ''0'') (ip @ fp);
          top = int (length ds) - int (length fp) + ex
      in if ds = [] then Fin 0
         else if 400 < top then PosInf
         else if top < - 400 then Fin 0
         else round_double (scale (of_int (decimal ds)) (ex - int (length fp))))"

text \<open>
  The longest prefix that is an unsigned decimal literal: \<^verbatim>\<open>Infinity\<close>, or digits
  with an optional fraction and an optional exponent; not-a-number without one.
\<close>

definition parse_unsigned :: "string \<Rightarrow> jsnum" where
  "parse_unsigned s =
     (if take 8 s = ''Infinity'' then PosInf
      else
        (let ip = takeWhile is_digit s;
             r1 = dropWhile is_digit s;
             fp = (case r1 of [] \<Rightarrow> []
                   | c # t \<Rightarrow> if c = CHR ''.'' then takeWhile is_digit t else []);
             r2 = (case r1 of [] \<Rightarrow> []
                   | c # t \<Rightarrow> if c = CHR ''.'' then dropWhile is_digit t else r1)
         in if ip = [] \<and> fp = [] then NaN
            else decimal_value ip fp (exponent r2)))"

text \<open>
  \<^verbatim>\<open>parseFloat\<close>: the argument is converted to a string, leading white space is
  dropped, and the longest prefix that is a decimal literal with an optional sign
  is its value. A number prints and parses back to the double it is;
  \<^verbatim>\<open>undefined\<close>, \<^verbatim>\<open>null\<close>, \<^verbatim>\<open>true\<close> and \<^verbatim>\<open>false\<close> print as words that have no such
  prefix.
\<close>

definition parseFloat :: "jsval \<Rightarrow> jsnum" where
  "parseFloat v =
     (case v of
        JNum r \<Rightarrow> round_double r
      | JStr s \<Rightarrow>
          (case trim_start s of
             [] \<Rightarrow> NaN
           | c # u \<Rightarrow>
               if c = CHR ''-'' then js_neg (parse_unsigned u)
               else if c = CHR ''+'' then parse_unsigned u
               else parse_unsigned (c # u))
      | _ \<Rightarrow> NaN)"

text \<open>
  The accumulator of the \<^verbatim>\<open>reduce\<close> in \<^verbatim>\<open>app.get('/api/revenue')\<close>, and the object
  after \<^verbatim>\<open>totals.outstanding = totals.totalPrice - totals.totalDeposit\<close>.
\<close>

record acc =
  totalPrice :: jsnum
  totalDeposit :: jsnum
  bookingCount :: nat

record totals = acc +
  outstanding :: jsnum

definition revenue_step :: "acc \<Rightarrow> 'a booking_scheme \<Rightarrow> acc" where
  "revenue_step a b =
     a\<lparr>totalPrice := js_add (totalPrice a) (or_zero (parseFloat (price b))),
       totalDeposit := js_add (totalDeposit a) (or_zero (parseFloat (deposit b))),
       bookingCount := bookingCount a + 1\<rparr>"

definition revenue_totals :: "'a booking_scheme list \<Rightarrow> totals" where
  "revenue_totals bs =
     (let a = foldl revenue_step \<lparr>totalPrice = Fin 0, totalDeposit = Fin 0, bookingCount = 0\<rparr> bs
      in \<lparr>totalPrice = totalPrice a, totalDeposit = totalDeposit a,
          bookingCount = bookingCount a,
          outstanding = js_sub (totalPrice a) (totalDeposit a)\<rparr>)"

record 'a revenue =
  rv_totals :: totals
  rv_bookings :: "'a list"

definition revenue_view :: "'a booking_scheme list \<Rightarrow> 'a booking_scheme revenue" where
  "revenue_view resultBookings =
     (let bs = filter not_cancelled resultBookings
      in \<lparr>rv_totals = revenue_totals bs, rv_bookings = bs\<rparr>)"


text \<open>A booking of the revenue example, with a price and a deposit only.\<close>

definition paid :: "jsval \<Rightarrow> jsval \<Rightarrow> booking" where
  "paid p d =
     \<lparr>id' = JUndefined, status = JStr ''confirmed'', arrival = JUndefined,
      departure = JUndefined, price = p, deposit = d\<rparr>"

section \<open>Request validation in the search and range handlers\<close>

text \<open>
  What a handler sends: \<^verbatim>\<open>res.status(n).json({ success: false, error })\<close>, or
  \<^verbatim>\<open>res.json({ success: true, ... })\<close> with the payload of the view.
\<close>

datatype 'r response = Failed nat string | Success 'r

definition PROPERTY_ID :: rat where
  "PROPERTY_ID = 279646"

text \<open>\<^verbatim>\<open>if (q) params.key = q;\<close>\<close>

definition set_if :: "string \<Rightarrow> query_param \<Rightarrow> params \<Rightarrow> params" where
  "set_if key q ps = (case q of None \<Rightarrow> ps | Some s \<Rightarrow> if s = [] then ps else map_set key (JStr s) ps)"

record 'b search_result =
  sr_count :: nat
  sr_data :: "'b list"

text \<open>
  \<^verbatim>\<open>app.get('/api/search')\<close>. The handler returns its response, the state of the world
  after it, and the upstream calls and pauses it made. The \<^verbatim>\<open>catch\<close> turns a thrown
  error into status 500 with the message of the error.
\<close>

definition api_search ::
  "('u, 'b) upstream \<Rightarrow> query_param \<Rightarrow> query_param \<Rightarrow> query_param \<Rightarrow> 'u
     \<Rightarrow> 'b search_result response \<times> 'u \<times> event list" where
  "api_search fetchBeds24 q checkIn checkOut u =
     (if \<not> truthy q \<and> \<not> truthy checkIn
      then (Failed 400 ''Required: q (search term) or checkIn date'', u, [])
      else
        (let ps = set_if ''arrivalTo'' checkOut
                    (set_if ''arrivalFrom'' checkIn
                      (set_if ''searchString'' q [(''propertyId'', JNum PROPERTY_ID)]))
         in case fetchAllBookingPages fetchBeds24 ps 10 u of
              (Inl (Error m), u', t) \<Rightarrow> (Failed 500 m, u', t)
            | (Inr result, u', t) \<Rightarrow>
                (Success \<lparr>sr_count = length (bookings result), sr_data = bookings result\<rparr>,
                 u', t)))"

record 'b range_result =
  rr_from :: string
  rr_to :: string
  rr_type :: string
  rr_count :: nat
  rr_totalPages :: nat
  rr_data :: "'b list"

text \<open>\<^verbatim>\<open>app.get('/getBookings/range')\<close>\<close>

definition getBookings_range ::
  "('u, 'b) upstream \<Rightarrow> query_param \<Rightarrow> query_param \<Rightarrow> query_param \<Rightarrow> 'u
     \<Rightarrow> 'b range_result response \<times> 'u \<times> event list" where
  "getBookings_range fetchBeds24 from to type u =
     (if \<not> truthy from \<or> \<not> truthy to
      then (Failed 400 ''Required: from and to dates (YYYY-MM-DD format)'', u, [])
      else
        (let ps = (if type = Some ''arrival''
                   then map_set ''arrivalTo'' (JStr (the to))
                          (map_set ''arrivalFrom'' (JStr (the from))
                            [(''propertyId'', JNum PROPERTY_ID)])
                   else map_set ''departureTo'' (JStr (the to))
                          (map_set ''departureFrom'' (JStr (the from))
                            [(''propertyId'', JNum PROPERTY_ID)]))
         in case fetchAllBookingPages fetchBeds24 ps 30 u of
              (Inl (Error m), u', t) \<Rightarrow> (Failed 500 m, u', t)
            | (Inr result, u', t) \<Rightarrow>
                (Success \<lparr>rr_from = the from, rr_to = the to,
                          rr_type = (if truthy type then the type else ''departure''),
                          rr_count = length (bookings result),
                          rr_totalPages = totalPages' result,
                          rr_data = bookings result\<rparr>,
                 u', t)))"

section \<open>The upstream query client\<close>

text \<open>
  The decoded payload \<^verbatim>\<open>data\<close> of an upstream response, as far as the client reads
  it: \<^verbatim>\<open>data.success\<close> (a boolean when present), \<^verbatim>\<open>data.error\<close> (a string when
  present), whether \<^verbatim>\<open>data.data\<close> is truthy, and the rest.
\<close>

record 'd payload =
  success :: "bool option"
  error :: "string option"
  has_data :: bool
  content :: 'd

text \<open>
  What the client returns: \<^verbatim>\<open>{ data, status }\<close> with the payload as it came, or, from
  the proxy when \<^verbatim>\<open>data.data\<close> is falsy, with the payload wrapped once more,
  \<^verbatim>\<open>{ data: { data: data }, status }\<close>.
\<close>

datatype 'd body = Plain "'d payload" | Wrapped "'d payload"

record 'd result =
  data :: "'d body"
  http_status :: nat

datatype route = Direct | Proxy

text \<open>
  The network: \<^verbatim>\<open>await fetch(url, options)\<close> followed by \<^verbatim>\<open>await response.json()\<close>, on
  the direct API or on the proxy, for a request \<open>'r\<close> (endpoint, parameters, method
  and body). It throws, or gives the status and the decoded payload; \<open>'n\<close> is the
  state of the remote side.
\<close>

type_synonym ('r, 'd, 'n) http = "route \<Rightarrow> 'r \<Rightarrow> 'n \<Rightarrow> (error + nat \<times> 'd payload) \<times> 'n"

text \<open>
  \<^verbatim>\<open>fetchBeds24Direct\<close>:
  \<^verbatim>\<open>if (data.success === false || data.error) throw new Error(data.error || 'API request failed');\<close>
  The record of the rate-limit headers in \<^verbatim>\<open>rateLimitInfo\<close> is left out: nothing
  reads it on these paths.
\<close>

definition fetchBeds24Direct ::
  "('r, 'd, 'n) http \<Rightarrow> 'r \<Rightarrow> 'n \<Rightarrow> (error + 'd result) \<times> 'n" where
  "fetchBeds24Direct http req n =
     (case http Direct req n of
        (Inl e, n') \<Rightarrow> (Inl e, n')
      | (Inr (st, d), n') \<Rightarrow>
          if success d = Some False \<or> truthy (error d)
          then (Inl (Error (if truthy (error d) then the (error d)
                            else ''API request failed'')), n')
          else (Inr \<lparr>data = Plain d, http_status = st\<rparr>, n'))"

text \<open>\<^verbatim>\<open>fetchBeds24ViaProxy\<close>: the payload is normalised and returned.\<close>

definition fetchBeds24ViaProxy ::
  "('r, 'd, 'n) http \<Rightarrow> 'r \<Rightarrow> 'n \<Rightarrow> (error + 'd result) \<times> 'n" where
  "fetchBeds24ViaProxy http req n =
     (case http Proxy req n of
        (Inl e, n') \<Rightarrow> (Inl e, n')
      | (Inr (st, d), n') \<Rightarrow>
          (Inr \<lparr>data = (if has_data d then Plain d else Wrapped d), http_status = st\<rparr>, n'))"

text \<open>
  The state of the client: the process-wide flag \<^verbatim>\<open>let useDirectApi = true\<close>, the
  state of the remote side, and the routes of the requests sent so far.
\<close>

record 'n client =
  useDirectApi :: bool
  net :: 'n
  calls :: "route list"

definition via_proxy ::
  "('r, 'd, 'n) http \<Rightarrow> 'r \<Rightarrow> 'n client \<Rightarrow> (error + 'd result) \<times> 'n client" where
  "via_proxy http req c =
     (case fetchBeds24ViaProxy http req (net c) of
        (r, n') \<Rightarrow> (r, c\<lparr>net := n', calls := calls c @ [Proxy]\<rparr>))"

text \<open>
  \<^verbatim>\<open>fetchBeds24\<close>. \<open>token\<close> is the value of \<^verbatim>\<open>await getToken()\<close>, the permanent read
  token. The \<^verbatim>\<open>catch\<close> around the direct call sets the flag and falls through to the
  proxy call.
\<close>

definition fetchBeds24 ::
  "('r, 'd, 'n) http \<Rightarrow> string \<Rightarrow> 'r \<Rightarrow> 'n client \<Rightarrow> (error + 'd result) \<times> 'n client" where
  "fetchBeds24 http token req c =
     (if useDirectApi c then
        (if token \<noteq> [] then
           (case fetchBeds24Direct http req (net c) of
              (Inr r, n') \<Rightarrow> (Inr r, c\<lparr>net := n', calls := calls c @ [Direct]\<rparr>)
            | (Inl e, n') \<Rightarrow>
                via_proxy http req
                  (c\<lparr>useDirectApi := False, net := n', calls := calls c @ [Direct]\<rparr>))
         else via_proxy http req c)
      else via_proxy http req c)"

text \<open>One upstream query of the process, with any request.\<close>

inductive step :: "('r, 'd, 'n) http \<Rightarrow> string \<Rightarrow> 'n client \<Rightarrow> 'n client \<Rightarrow> bool"
  for http :: "('r, 'd, 'n) http" and token :: string where
  query: "step http token c (snd (fetchBeds24 http token req c))"

text \<open>
  A remote side for the examples: the direct API answers with a payload that
  carries the failure flag and a message, the proxy with a payload with data.
\<close>

definition failing_direct :: "(unit, unit, unit) http" where
  "failing_direct rt req n =
     (case rt of
        Direct \<Rightarrow> (Inr (200, \<lparr>success = Some False, error = Some ''Invalid token'',
                               has_data = False, content = ()\<rparr>), n)
      | Proxy \<Rightarrow> (Inr (200, \<lparr>success = None, error = None,
                              has_data = True, content = ()\<rparr>), n))"

section \<open>The end date of the calendar view\<close>

text \<open>
  A \<^verbatim>\<open>Date\<close> holds a time value, the milliseconds since 1970-01-01T00:00:00Z. Day
  numbers count days from 1970-01-01. The two functions below convert between a day
  number and a date (year, month 1 to 12, day of month) of the proleptic Gregorian
  calendar, as \<^verbatim>\<open>MakeDay\<close>, \<^verbatim>\<open>YearFromTime\<close>, \<^verbatim>\<open>MonthFromTime\<close> and \<^verbatim>\<open>DateFromTime\<close>
  of the language specification do.
\<close>

definition msPerDay :: int where
  "msPerDay = 86400000"

definition msPerHour :: int where
  "msPerHour = 3600000"

definition days_from_civil :: "int \<Rightarrow> int \<Rightarrow> int \<Rightarrow> int" where
  "days_from_civil y m d =
     (let y' = (if m \<le> 2 then y - 1 else y);
          era = y' div 400;
          yoe = y' - era * 400;
          doy = (153 * (if 2 < m then m - 3 else m + 9) + 2) div 5 + d - 1;
          doe = yoe * 365 + yoe div 4 - yoe div 100 + doy
      in era * 146097 + doe - 719468)"

definition civil_from_days :: "int \<Rightarrow> int \<times> int \<times> int" where
  "civil_from_days z =
     (let z' = z + 719468;
          era = z' div 146097;
          doe = z' - era * 146097;
          yoe = (doe - doe div 1460 + doe div 36524 - doe div 146096) div 365;
          doy = doe - (365 * yoe + yoe div 4 - yoe div 100);
          mp = (5 * doy + 2) div 153;
          d = doy - (153 * mp + 2) div 5 + 1;
          m = (if mp < 10 then mp + 3 else mp - 9)
      in ((if m \<le> 2 then yoe + era * 400 + 1 else yoe + era * 400), m, d))"

definition is_leap :: "int \<Rightarrow> bool" where
  "is_leap y \<longleftrightarrow> y mod 4 = 0 \<and> (y mod 100 \<noteq> 0 \<or> y mod 400 = 0)"

definition days_in_month :: "int \<Rightarrow> int \<Rightarrow> int" where
  "days_in_month y m =
     (if m = 2 then (if is_leap y then 29 else 28)
      else if m = 4 \<or> m = 6 \<or> m = 9 \<or> m = 11 then 30 else 31)"

text \<open>
  A date string \<^verbatim>\<open>YYYY-MM-DD\<close> of a day that exists. What \<^verbatim>\<open>new Date\<close> makes of any
  other text is left to the implementation, and is outside the model (\<open>None\<close>).
\<close>

definition parse_ymd :: "string \<Rightarrow> (int \<times> int \<times> int) option" where
  "parse_ymd s =
     (case s of
        [y1, y2, y3, y4, h1, m1, m2, h2, d1, d2] \<Rightarrow>
          if h1 = CHR ''-'' \<and> h2 = CHR ''-'' \<and> list_all is_digit [y1, y2, y3, y4, m1, m2, d1, d2]
          then
            (let y = int (digits_val [y1, y2, y3, y4]);
                 m = int (digits_val [m1, m2]);
                 d = int (digits_val [d1, d2])
             in if 1 \<le> m \<and> m \<le> 12 \<and> 1 \<le> d \<and> d \<le> days_in_month y m
                then Some (y, m, d) else None)
          else None
      | _ \<Rightarrow> None)"

text \<open>
  \<^verbatim>\<open>new Date(start + 'T00:00:00+06:00')\<close>: midnight of the day at the offset +06:00,
  which is six hours before midnight UTC of that day.
\<close>

definition new_Date_BD :: "string \<Rightarrow> int option" where
  "new_Date_BD start =
     (case parse_ymd start of
        None \<Rightarrow> None
      | Some (y, m, d) \<Rightarrow> Some (days_from_civil y m d * msPerDay - 6 * msPerHour))"

text \<open>
  The time zone of the host that runs the process: a fixed offset from UTC in
  milliseconds, or a zone with one transition, given by its instant and the
  offsets before and after it. \<open>LocalTZA_utc\<close> is the offset in force at an instant;
  \<open>LocalTZA_local\<close> is the offset for a local time, where a local time that the
  transition skips or repeats takes the offset before the transition.
\<close>

datatype tz = Fixed int | Transition int int int

fun LocalTZA_utc :: "tz \<Rightarrow> int \<Rightarrow> int" where
  "LocalTZA_utc (Fixed off) t = off"
| "LocalTZA_utc (Transition instant off1 off2) t = (if t < instant then off1 else off2)"

fun LocalTZA_local :: "tz \<Rightarrow> int \<Rightarrow> int" where
  "LocalTZA_local (Fixed off) t = off"
| "LocalTZA_local (Transition instant off1 off2) t =
     (if t - off1 < instant then off1 else if instant \<le> t - off2 then off2 else off1)"

text \<open>\<^verbatim>\<open>getDate()\<close>: the day of the month of the time value in the time zone of the host.\<close>

definition getDate :: "tz \<Rightarrow> int \<Rightarrow> int" where
  "getDate host t =
     (case civil_from_days ((t + LocalTZA_utc host t) div msPerDay) of (y, m, d) \<Rightarrow> d)"

text \<open>
  \<^verbatim>\<open>setDate(dt)\<close>: the local time of the time value keeps its year, month and time
  within the day, its day of the month becomes \<open>dt\<close> (days beyond the month run into
  the next months), and the result is converted from local time back to UTC.
\<close>

definition setDate :: "tz \<Rightarrow> int \<Rightarrow> int \<Rightarrow> int" where
  "setDate host t dt =
     (let lt = t + LocalTZA_utc host t
      in case civil_from_days (lt div msPerDay) of
           (y, m, d) \<Rightarrow>
             (let newDate = (days_from_civil y m 1 + dt - 1) * msPerDay + lt mod msPerDay
              in newDate - LocalTZA_local host newDate))"

text \<open>The decimal digits of a natural number, and two digits for a month or day.\<close>

fun digits_of :: "nat \<Rightarrow> string" where
  "digits_of n =
     (if n < 10 then [char_of (48 + n)] else digits_of (n div 10) @ [char_of (48 + n mod 10)])"

definition two_digits :: "int \<Rightarrow> string" where
  "two_digits n = (if n < 10 then CHR ''0'' # digits_of (nat n) else digits_of (nat n))"

text \<open>
  The text of a date in the locale \<^verbatim>\<open>en-CA\<close>: year-month-day. Years before the year
  1 are outside the model.
\<close>

definition format_en_CA :: "int \<times> int \<times> int \<Rightarrow> string option" where
  "format_en_CA c =
     (case c of
        (y, m, d) \<Rightarrow>
          if y < 1 then None
          else Some (digits_of (nat y) @ ''-'' @ two_digits m @ ''-'' @ two_digits d))"

text \<open>
  \<^verbatim>\<open>toLocaleDateString('en-CA', { timeZone: 'Asia/Dhaka' })\<close>: the date of the time
  value at the offset of Asia/Dhaka, UTC+6.
\<close>

definition toLocaleDateString_BD :: "int \<Rightarrow> string option" where
  "toLocaleDateString_BD t = format_en_CA (civil_from_days ((t + 6 * msPerHour) div msPerDay))"

text \<open>
  \<^verbatim>\<open>parseInt(req.query.days) || 7\<close>, where \<open>days_q\<close> is the value of \<^verbatim>\<open>parseInt\<close>,
  \<open>None\<close> for not-a-number: not-a-number and 0 become 7.
\<close>

definition days_or_7 :: "int option \<Rightarrow> int" where
  "days_or_7 days_q = (case days_q of None \<Rightarrow> 7 | Some n \<Rightarrow> if n = 0 then 7 else n)"

text \<open>The end date of \<^verbatim>\<open>app.get('/api/calendar')\<close>.\<close>

definition calendar_end :: "tz \<Rightarrow> string \<Rightarrow> int option \<Rightarrow> string option" where
  "calendar_end host start days_q =
     (let days = days_or_7 days_q
      in case new_Date_BD start of
           None \<Rightarrow> None
         | Some startDate \<Rightarrow>
             toLocaleDateString_BD (setDate host startDate (getDate host startDate + days)))"

text \<open>
  The start date shifted by a number of days in the calendar, with no time zone
  involved.
\<close>

definition addDays :: "int \<times> int \<times> int \<Rightarrow> int \<Rightarrow> int \<times> int \<times> int" where
  "addDays c n = (case c of (y, m, d) \<Rightarrow> civil_from_days (days_from_civil y m d + n))"

text \<open>
  The year within its cycle of 400 years, and the day within that year counted from
  the first of March, that \<open>civil_from_days\<close> computes from the day within the cycle.
\<close>

definition yoe_of :: "int \<Rightarrow> int" where
  "yoe_of doe = (doe - doe div 1460 + doe div 36524 - doe div 146096) div 365"

definition doy_of :: "int \<Rightarrow> int" where
  "doy_of doe = doe - (365 * yoe_of doe + yoe_of doe div 4 - yoe_of doe div 100)"

text \<open>
  Two hosts: one that runs in UTC, and one that runs in the zone of New York around
  the start of daylight saving time on 2024-03-10 at 07:00 UTC, when the offset
  changes from five to four hours behind UTC.
\<close>

definition host_utc :: tz where
  "host_utc = Fixed 0"

definition host_new_york :: tz where
  "host_new_york = Transition 1710054000000 (- 5 * 3600000) (- 4 * 3600000)"

section \<open>Example records\<close>

definition cancelled_example :: booking where
  "cancelled_example =
     \<lparr>id' = JNum 7, status = JStr ''cancelled'', arrival = JStr ''2024-05-08'',
      departure = JStr ''2024-05-10'', price = JNum 100, deposit = JNum 0\<rparr>"

definition confirmed_example :: booking where
  "confirmed_example =
     \<lparr>id' = JNum 8, status = JStr ''confirmed'', arrival = JStr ''2024-05-08'',
      departure = JStr ''2024-05-11'', price = JNum 100, deposit = JNum 0\<rparr>"

definition departing_example :: booking where
  "departing_example =
     \<lparr>id' = JNum 9, status = JStr ''confirmed'', arrival = JStr ''2024-05-07'',
      departure = JStr ''2024-05-10'', price = JNum 100, deposit = JNum 0\<rparr>"


section \<open>Properties of the merge\<close>

lemma map_set_keys:
  "map fst (map_set k v m) = (if k \<in> set (map fst m) then map fst m else map fst m @ [k])"
  by (induction m) auto

lemma map_set_distinct: "distinct (map fst m) \<Longrightarrow> distinct (map fst (map_set k v m))"
  by (simp add: map_set_keys)

lemma map_set_map_of: "map_of (map_set k v m) = (map_of m)(k \<mapsto> v)"
  by (induction m) (auto simp: fun_eq_iff)

lemma map_set_keyed: "keyed m \<Longrightarrow> keyed (map_set (id' b) b m)"
  by (induction m) (auto simp: keyed_def)

lemma fold_set_distinct:
  "distinct (map fst m) \<Longrightarrow> distinct (map fst (fold (\<lambda>b m. map_set (id' b) b m) xs m))"
  by (induction xs arbitrary: m) (auto simp: map_set_distinct)

lemma fold_set_keyed:
  "keyed m \<Longrightarrow> keyed (fold (\<lambda>b m. map_set (id' b) b m) xs m)"
  by (induction xs arbitrary: m) (auto simp: map_set_keyed)

lemma map_set_key_set: "fst ` set (map_set k v m) = insert k (fst ` set m)"
  by (induction m) auto

lemma fold_set_keys:
  "fst ` set (fold (\<lambda>b m. map_set (id' b) b m) xs m) = fst ` set m \<union> id' ` set xs"
  by (induction xs arbitrary: m) (simp_all add: map_set_key_set)

lemma fold_set_map_of:
  "map_of (fold (\<lambda>b m. map_set (id' b) b m) xs m) k =
     (if filter (\<lambda>b. id' b = k) xs = [] then map_of m k
      else Some (last (filter (\<lambda>b. id' b = k) xs)))"
proof (induction xs arbitrary: m)
  case Nil
  then show ?case by simp
next
  case (Cons x xs)
  show ?case
    by (simp add: Cons.IH map_set_map_of)
qed

lemma bookingMap_distinct: "distinct (map fst (bookingMap xs))"
  unfolding bookingMap_def by (rule fold_set_distinct) simp

lemma bookingMap_keyed: "keyed (bookingMap xs)"
  unfolding bookingMap_def by (rule fold_set_keyed) (simp add: keyed_def)

lemma bookingMap_ids: "map id' (map_values (bookingMap xs)) = map fst (bookingMap xs)"
  using bookingMap_keyed [of xs] by (simp add: keyed_def map_values_def)

lemma bookingMap_lookup:
  "map_of (bookingMap xs) k =
     (if filter (\<lambda>b. id' b = k) xs = [] then None
      else Some (last (filter (\<lambda>b. id' b = k) xs)))"
  unfolding bookingMap_def by (simp add: fold_set_map_of)

lemma bookingMap_member:
  assumes "r \<in> set (map_values (bookingMap xs))"
  shows "filter (\<lambda>b. id' b = id' r) xs \<noteq> [] \<and> r = last (filter (\<lambda>b. id' b = id' r) xs)"
proof -
  from assms obtain k where kr: "(k, r) \<in> set (bookingMap xs)"
    by (auto simp: map_values_def)
  with bookingMap_keyed [of xs] have k: "k = id' r"
    by (auto simp: keyed_def)
  from kr bookingMap_distinct [of xs] have "map_of (bookingMap xs) k = Some r"
    by simp
  with k show ?thesis
    by (auto simp: bookingMap_lookup split: if_splits)
qed

lemma seen_filter_notin: "r \<in> set (seen_filter seen xs) \<Longrightarrow> id' r \<notin> seen"
  by (induction seen xs rule: seen_filter.induct) (auto split: if_splits)

lemma seen_filter_ids: "id' ` set (seen_filter seen xs) = id' ` set xs - seen"
  by (induction seen xs rule: seen_filter.induct) auto

lemma seen_filter_distinct: "distinct (map id' (seen_filter seen xs))"
proof (induction seen xs rule: seen_filter.induct)
  case (1 seen)
  then show ?case by simp
next
  case (2 seen b bs)
  have "id' b \<notin> id' ` set (seen_filter (insert (id' b) seen) bs)"
    by (simp add: seen_filter_ids)
  with 2 show ?case by simp
qed

lemma seen_filter_member:
  "r \<in> set (seen_filter seen xs) \<Longrightarrow> hd (filter (\<lambda>b. id' b = id' r) xs) = r"
proof (induction seen xs rule: seen_filter.induct)
  case (1 seen)
  then show ?case by simp
next
  case (2 seen b bs)
  show ?case
  proof (cases "id' b \<in> seen")
    case True
    with 2 have r: "r \<in> set (seen_filter seen bs)" by simp
    then have "id' r \<notin> seen" by (rule seen_filter_notin)
    with True have "id' b \<noteq> id' r" by auto
    with 2 True r show ?thesis by simp
  next
    case False
    show ?thesis
    proof (cases "r = b")
      case True
      then show ?thesis by simp
    next
      case neq: False
      with 2 False have r: "r \<in> set (seen_filter (insert (id' b) seen) bs)" by simp
      then have "id' r \<notin> insert (id' b) seen" by (rule seen_filter_notin)
      then have "id' b \<noteq> id' r" by auto
      with 2 False r show ?thesis by simp
    qed
  qed
qed

lemma bookingMap_subset: "set (map_values (bookingMap xs)) \<subseteq> set xs"
proof
  fix r assume "r \<in> set (map_values (bookingMap xs))"
  then have ne: "filter (\<lambda>b. id' b = id' r) xs \<noteq> []"
    and r: "r = last (filter (\<lambda>b. id' b = id' r) xs)"
    using bookingMap_member by blast+
  from ne have "last (filter (\<lambda>b. id' b = id' r) xs) \<in> set (filter (\<lambda>b. id' b = id' r) xs)"
    by (rule last_in_set)
  with r show "r \<in> set xs" by (metis filter_is_subset subsetD)
qed

lemma seen_filter_subset: "set (seen_filter seen xs) \<subseteq> set xs"
  by (induction seen xs rule: seen_filter.induct) auto

lemma filter_key_single:
  "distinct (map f xs) \<Longrightarrow> x \<in> set xs \<Longrightarrow> filter (\<lambda>r. f r = f x) xs = [x]"
proof (induction xs)
  case Nil
  then show ?case by simp
next
  case (Cons y ys)
  show ?case
  proof (cases "y = x")
    case True
    with Cons.prems have "f x \<notin> f ` set ys" by simp
    then have "\<forall>r \<in> set ys. f r \<noteq> f x" by (metis imageI)
    then have "filter (\<lambda>r. f r = f x) ys = []" by (simp add: filter_empty_conv)
    with True show ?thesis by simp
  next
    case False
    with Cons.prems have x: "x \<in> set ys" by simp
    with Cons.prems have "f y \<noteq> f x" by auto
    with Cons x show ?thesis by simp
  qed
qed

lemma getBookings_merge_distinct: "distinct (map id' (getBookings_merge A B))"
  by (simp add: getBookings_merge_def bookingMap_ids bookingMap_distinct)

lemma getBookings_merge_last:
  assumes "b \<in> set B" and "distinct (map id' B)"
  shows "b \<in> set (getBookings_merge A B)"
proof -
  have fb: "filter (\<lambda>r. id' r = id' b) B = [b]"
    by (rule filter_key_single [OF assms(2) assms(1)])
  then have "map_of (bookingMap (A @ B)) (id' b) = Some b"
    by (simp add: bookingMap_lookup)
  then have "(id' b, b) \<in> set (bookingMap (A @ B))"
    by (rule map_of_SomeD)
  then show ?thesis
    by (force simp: getBookings_merge_def map_values_def)
qed

lemma uniqueBookings_distinct: "distinct (map id' (uniqueBookings A B))"
  by (simp add: uniqueBookings_def seen_filter_distinct)

lemma seen_filter_first:
  "x \<in> set xs \<Longrightarrow> id' x \<notin> seen \<Longrightarrow>
     hd (filter (\<lambda>r. id' r = id' x) xs) \<in> set (seen_filter seen xs)"
proof (induction seen xs rule: seen_filter.induct)
  case (1 seen)
  then show ?case by simp
next
  case (2 seen b bs)
  show ?case
  proof (cases "id' b = id' x")
    case True
    with 2 show ?thesis by simp
  next
    case False
    with "2.prems" have x: "x \<in> set bs" by auto
    show ?thesis
    proof (cases "id' b \<in> seen")
      case True
      with 2 x False show ?thesis by simp
    next
      case nseen: False
      from "2.prems" False have "id' x \<notin> insert (id' b) seen" by auto
      with 2 x False nseen show ?thesis by simp
    qed
  qed
qed

lemma uniqueBookings_first:
  assumes "a \<in> set A" and "distinct (map id' A)"
  shows "a \<in> set (uniqueBookings A B)"
proof -
  have "filter (\<lambda>r. id' r = id' a) A = [a]"
    by (rule filter_key_single [OF assms(2) assms(1)])
  then have "hd (filter (\<lambda>r. id' r = id' a) (A @ B)) = a" by simp
  moreover from assms(1) have "a \<in> set (A @ B)" by simp
  then have "hd (filter (\<lambda>r. id' r = id' a) (A @ B)) \<in> set (seen_filter {} (A @ B))"
    by (rule seen_filter_first) simp
  ultimately show ?thesis by (simp add: uniqueBookings_def)
qed

section \<open>Claims about the merge\<close>

text \<open>
  C1, as the claim states it, at the \<open>seen\<close>-set filter of \<^verbatim>\<open>/dashboard/bookings\<close>:
  of two records with the identifier "B1", the first source's one survives, and the
  second source's version is dropped.
\<close>

theorem C1_seen_filter_first_wins:
  "uniqueBookings
     [\<lparr>id' = JStr ''B1'', status = JStr ''confirmed'', arrival = JUndefined,
       departure = JUndefined, price = JNum 100, deposit = JUndefined\<rparr>]
     [\<lparr>id' = JStr ''B1'', status = JStr ''new'', arrival = JUndefined,
       departure = JUndefined, price = JNum 250, deposit = JUndefined\<rparr>]
   = [\<lparr>id' = JStr ''B1'', status = JStr ''confirmed'', arrival = JUndefined,
        departure = JUndefined, price = JNum 100, deposit = JUndefined\<rparr>]"
  by (simp add: uniqueBookings_def)

lemma getBookings_merge_ids:
  "id' ` set (getBookings_merge A B) = id' ` (set A \<union> set B)"
proof -
  have "id' ` set (map_values (bookingMap (A @ B))) = set (map fst (bookingMap (A @ B)))"
    using bookingMap_ids [of "A @ B"] by (metis set_map)
  also have "\<dots> = id' ` set (A @ B)"
    unfolding bookingMap_def using fold_set_keys [of "A @ B" "[]"] by simp
  finally show ?thesis by (simp add: getBookings_merge_def)
qed

lemma uniqueBookings_ids:
  "id' ` set (uniqueBookings A B) = id' ` (set A \<union> set B)"
  by (simp add: uniqueBookings_def seen_filter_ids)

text \<open>
  C1, amended. Two record lists, each with one record per identifier, that share an
  identifier. The \<^verbatim>\<open>Map\<close> fold of \<^verbatim>\<open>/getBookings\<close> over \<open>[setA, setB]\<close> keeps exactly
  one record per identifier: its result has no identifier twice, and its identifiers
  are those of the two lists together; for the shared identifier the record kept is
  \<open>setB\<close>'s (the last in processing order). The \<open>seen\<close>-set filter of
  \<^verbatim>\<open>/dashboard/bookings\<close> keeps exactly one record per identifier as well, and for
  the shared identifier the record kept is \<open>setA\<close>'s (the first in processing order).
\<close>

theorem C1_merge_survivor:
  assumes "a \<in> set setA" and "b \<in> set setB" and "id' a = id' b"
    and "distinct (map id' setA)" and "distinct (map id' setB)"
  shows "distinct (map id' (getBookings_merge setA setB))
       \<and> id' ` set (getBookings_merge setA setB) = id' ` (set setA \<union> set setB)
       \<and> set (getBookings_merge setA setB) \<subseteq> set setA \<union> set setB
       \<and> filter (\<lambda>r. id' r = id' b) (getBookings_merge setA setB) = [b]
       \<and> distinct (map id' (uniqueBookings setA setB))
       \<and> id' ` set (uniqueBookings setA setB) = id' ` (set setA \<union> set setB)
       \<and> set (uniqueBookings setA setB) \<subseteq> set setA \<union> set setB
       \<and> filter (\<lambda>r. id' r = id' a) (uniqueBookings setA setB) = [a]"
proof -
  have 1: "filter (\<lambda>r. id' r = id' b) (getBookings_merge setA setB) = [b]"
    using getBookings_merge_distinct getBookings_merge_last [OF assms(2) assms(5)]
    by (rule filter_key_single)
  have 2: "filter (\<lambda>r. id' r = id' a) (uniqueBookings setA setB) = [a]"
    using uniqueBookings_distinct uniqueBookings_first [OF assms(1) assms(4)]
    by (rule filter_key_single)
  have 3: "set (getBookings_merge setA setB) \<subseteq> set setA \<union> set setB"
    using bookingMap_subset [of "setA @ setB"] by (simp add: getBookings_merge_def)
  have 4: "set (uniqueBookings setA setB) \<subseteq> set setA \<union> set setB"
    using seen_filter_subset [of "{}" "setA @ setB"] by (simp add: uniqueBookings_def)
  from 1 2 3 4 show ?thesis
    by (simp add: getBookings_merge_distinct uniqueBookings_distinct
        getBookings_merge_ids uniqueBookings_ids)
qed

theorem C1_merge_survivor_witness:
  "getBookings_merge
     [\<lparr>id' = JStr ''B1'', status = JStr ''confirmed'', arrival = JUndefined,
       departure = JUndefined, price = JNum 100, deposit = JUndefined\<rparr>]
     [\<lparr>id' = JStr ''B1'', status = JStr ''new'', arrival = JUndefined,
       departure = JUndefined, price = JNum 250, deposit = JUndefined\<rparr>]
   = [\<lparr>id' = JStr ''B1'', status = JStr ''new'', arrival = JUndefined,
        departure = JUndefined, price = JNum 250, deposit = JUndefined\<rparr>]"
  using C1_merge_survivor
    [of "\<lparr>id' = JStr ''B1'', status = JStr ''confirmed'', arrival = JUndefined,
          departure = JUndefined, price = JNum 100, deposit = JUndefined\<rparr>"
        "[\<lparr>id' = JStr ''B1'', status = JStr ''confirmed'', arrival = JUndefined,
          departure = JUndefined, price = JNum 100, deposit = JUndefined\<rparr>]"
        "\<lparr>id' = JStr ''B1'', status = JStr ''new'', arrival = JUndefined,
          departure = JUndefined, price = JNum 250, deposit = JUndefined\<rparr>"
        "[\<lparr>id' = JStr ''B1'', status = JStr ''new'', arrival = JUndefined,
          departure = JUndefined, price = JNum 250, deposit = JUndefined\<rparr>]"]
  by (simp add: getBookings_merge_def bookingMap_def map_values_def)

section \<open>Properties of the pagination walker\<close>

declare fetch_loop.simps [simp del]

lemma fetches_simps [simp]:
  "fetches [] = 0" "fetches (Fetch p # t) = Suc (fetches t)" "fetches (Delay # t) = fetches t"
  "fetches (t @ s) = fetches t + fetches s"
  by (simp_all add: fetches_def)

lemma delays_simps [simp]:
  "delays [] = 0" "delays (Fetch p # t) = delays t" "delays (Delay # t) = Suc (delays t)"
  "delays (t @ s) = delays t + delays s"
  by (simp_all add: delays_def)

lemma fetch_loop_stop:
  "\<not> (hasMorePages w \<and> currentPage w \<le> mp) \<Longrightarrow> fetch_loop f ps mp w = (None, w)"
  by (subst fetch_loop.simps) auto

lemma fetch_loop_throw:
  "hasMorePages w \<Longrightarrow> currentPage w \<le> mp \<Longrightarrow> f (page_params ps w) (world w) = (Inl e, u) \<Longrightarrow>
     fetch_loop f ps mp w = (Some e, w\<lparr>world := u, trace := trace w @ [Fetch (page_params ps w)]\<rparr>)"
  by (subst fetch_loop.simps) (simp add: page_params_def Let_def)

lemma fetch_loop_next:
  "hasMorePages w \<Longrightarrow> currentPage w \<le> mp \<Longrightarrow> f (page_params ps w) (world w) = (Inr res, u) \<Longrightarrow>
   nextPageExists res \<Longrightarrow>
     fetch_loop f ps mp w =
     fetch_loop f ps mp
       (w\<lparr>world := u, allBookings := allBookings w @ pageBookings res,
          hasMorePages := True, currentPage := Suc (currentPage w),
          totalPages := Suc (currentPage w),
          trace := trace w @ [Fetch (page_params ps w), Delay]\<rparr>)"
  by (subst fetch_loop.simps) (simp add: page_params_def Let_def)

lemma fetch_loop_last:
  "hasMorePages w \<Longrightarrow> currentPage w \<le> mp \<Longrightarrow> f (page_params ps w) (world w) = (Inr res, u) \<Longrightarrow>
   \<not> nextPageExists res \<Longrightarrow>
     fetch_loop f ps mp w =
       (None, w\<lparr>world := u, allBookings := allBookings w @ pageBookings res,
          hasMorePages := False, trace := trace w @ [Fetch (page_params ps w)]\<rparr>)"
  by (subst fetch_loop.simps) (simp add: page_params_def Let_def fetch_loop_stop)

lemma fetch_loop_induct [case_names stop throw final more]:
  assumes "\<And>w. \<not> (hasMorePages w \<and> currentPage w \<le> mp) \<Longrightarrow> P w"
    and "\<And>w e u. hasMorePages w \<Longrightarrow> currentPage w \<le> mp \<Longrightarrow>
           f (page_params ps w) (world w) = (Inl e, u) \<Longrightarrow> P w"
    and "\<And>w res u. hasMorePages w \<Longrightarrow> currentPage w \<le> mp \<Longrightarrow>
           f (page_params ps w) (world w) = (Inr res, u) \<Longrightarrow> \<not> nextPageExists res \<Longrightarrow> P w"
    and "\<And>w res u. hasMorePages w \<Longrightarrow> currentPage w \<le> mp \<Longrightarrow>
           f (page_params ps w) (world w) = (Inr res, u) \<Longrightarrow> nextPageExists res \<Longrightarrow>
           P (next_walk ps w res u) \<Longrightarrow> P w"
  shows "P (w :: ('u, 'b) walk)"
proof (induction "Suc mp - currentPage w" arbitrary: w rule: less_induct)
  case less
  show ?case
  proof (cases "hasMorePages w \<and> currentPage w \<le> mp")
    case False
    then show ?thesis by (rule assms(1))
  next
    case True
    obtain x u where fr: "f (page_params ps w) (world w) = (x, u)"
      by (cases "f (page_params ps w) (world w)")
    show ?thesis
    proof (cases x)
      case (Inl e)
      with True fr show ?thesis by (auto intro: assms(2))
    next
      case (Inr res)
      show ?thesis
      proof (cases "nextPageExists res")
        case False
        with True fr Inr show ?thesis by (auto intro: assms(3))
      next
        case nx: True
        from True have "Suc mp - currentPage (next_walk ps w res u) < Suc mp - currentPage w"
          by (simp add: next_walk_def) arith
        then have "P (next_walk ps w res u)" by (rule less.hyps)
        with True fr Inr nx show ?thesis by (auto intro: assms(4))
      qed
    qed
  qed
qed

lemma fetch_loop_inv:
  "walk_inv w \<Longrightarrow> fetch_loop f ps mp w = (None, w') \<Longrightarrow>
     walk_inv w' \<and> (hasMorePages w' \<longrightarrow> mp < currentPage w')"
proof (induction w rule: fetch_loop_induct [where f = f and ps = ps and mp = mp])
  case (stop w)
  then show ?case by (auto simp: fetch_loop_stop)
next
  case (throw w e u)
  then show ?case by (simp add: fetch_loop_throw)
next
  case (final w res u)
  then show ?case by (auto simp: fetch_loop_last walk_inv_def)
next
  case (more w res u)
  from more.prems(1) more.hyps have "walk_inv (next_walk ps w res u)"
    by (simp add: walk_inv_def next_walk_def)
  moreover from more have "fetch_loop f ps mp (next_walk ps w res u) = (None, w')"
    by (simp add: fetch_loop_next next_walk_def)
  ultimately show ?case by (rule more.IH)
qed

lemma fetch_loop_bound:
  "fetch_loop f ps mp w = (r, w') \<Longrightarrow>
     fetches (trace w') \<le>
       fetches (trace w) + (if hasMorePages w then Suc mp - currentPage w else 0)"
proof (induction w rule: fetch_loop_induct [where f = f and ps = ps and mp = mp])
  case (stop w)
  then show ?case by (auto simp: fetch_loop_stop)
next
  case (throw w e u)
  then show ?case by (auto simp: fetch_loop_throw)
next
  case (final w res u)
  then show ?case by (auto simp: fetch_loop_last)
next
  case (more w res u)
  from more have "fetch_loop f ps mp (next_walk ps w res u) = (r, w')"
    by (simp add: fetch_loop_next next_walk_def)
  then have "fetches (trace w') \<le> fetches (trace (next_walk ps w res u)) +
      (if hasMorePages (next_walk ps w res u)
       then Suc mp - currentPage (next_walk ps w res u) else 0)"
    by (rule more.IH)
  with more.hyps show ?case by (simp add: next_walk_def)
qed

lemma fetch_loop_always_next:
  assumes always: "\<forall>p u. \<exists>res u'. f p u = (Inr res, u') \<and> nextPageExists res"
  shows "hasMorePages w \<Longrightarrow>
     \<exists>w'. fetch_loop f ps mp w = (None, w') \<and> hasMorePages w' \<and>
       trace w' = trace w @ concat (map (page_events ps) [currentPage w ..< Suc mp])"
proof (induction w rule: fetch_loop_induct [where f = f and ps = ps and mp = mp])
  case (stop w)
  then show ?case by (simp add: fetch_loop_stop)
next
  case (throw w e u)
  with always show ?case by (metis Inl_Inr_False prod.inject)
next
  case (final w res u)
  with always show ?case by (metis Inr_inject prod.inject)
next
  case (more w res u)
  have "hasMorePages (next_walk ps w res u)" by (simp add: next_walk_def)
  then obtain w' where w': "fetch_loop f ps mp (next_walk ps w res u) = (None, w')"
    "hasMorePages w'"
    "trace w' = trace (next_walk ps w res u) @
       concat (map (page_events ps) [currentPage (next_walk ps w res u) ..< Suc mp])"
    using more.IH by blast
  from more.hyps have "[currentPage w ..< Suc mp] = currentPage w # [Suc (currentPage w) ..< Suc mp]"
    by (simp add: upt_conv_Cons del: upt_Suc)
  moreover have "page_events ps (currentPage w) = [Fetch (page_params ps w), Delay]"
    by (simp add: page_events_def page_params_def)
  ultimately show ?case using w' more.hyps
    by (simp add: fetch_loop_next next_walk_def del: upt_Suc)
qed

lemma walk_inv_init: "walk_inv (walk_init u)"
  by (simp add: walk_inv_def walk_init_def)

text \<open>
  C3. For every parameter object, every \<open>maxPages\<close> and every upstream,
  \<^verbatim>\<open>fetchAllBookingPages\<close> returns (the loop is a total function) after at most
  \<open>maxPages\<close> upstream calls. Against an upstream that always reports a next page
  it returns without error after the calls for the pages \<open>1, \<dots>, maxPages\<close>, each
  followed by the pause: exactly \<open>maxPages\<close> calls.
\<close>

theorem C3_page_cap:
  "fetches (trace (snd (fetchAllBookingPages_run f ps maxPages u))) \<le> maxPages
   \<and> ((\<forall>p v. \<exists>res v'. f p v = (Inr res, v') \<and> nextPageExists res) \<longrightarrow>
        fst (fetchAllBookingPages_run f ps maxPages u) = None
      \<and> trace (snd (fetchAllBookingPages_run f ps maxPages u))
          = concat (map (page_events ps) [1 ..< Suc maxPages])
      \<and> fetches (trace (snd (fetchAllBookingPages_run f ps maxPages u))) = maxPages)"
proof -
  obtain r w' where run: "fetch_loop f ps maxPages (walk_init u) = (r, w')"
    by (cases "fetch_loop f ps maxPages (walk_init u)")
  then have sel: "fetchAllBookingPages_run f ps maxPages u = (r, w')"
    by (simp add: fetchAllBookingPages_run_def)
  from fetch_loop_bound [OF run] have bound: "fetches (trace w') \<le> maxPages"
    by (simp add: walk_init_def)
  have exact: "(\<forall>p v. \<exists>res v'. f p v = (Inr res, v') \<and> nextPageExists res) \<longrightarrow>
      r = None \<and> trace w' = concat (map (page_events ps) [1 ..< Suc maxPages])
        \<and> fetches (trace w') = maxPages"
  proof
    assume always: "\<forall>p v. \<exists>res v'. f p v = (Inr res, v') \<and> nextPageExists res"
    have "hasMorePages (walk_init u)" by (simp add: walk_init_def)
    from fetch_loop_always_next [OF always this, of ps maxPages] run
    have 1: "r = None" and 2: "trace w' = concat (map (page_events ps) [1 ..< Suc maxPages])"
      by (auto simp: walk_init_def simp del: upt_Suc)
    have "fetches (concat (map (page_events ps) [a ..< b])) = b - a" for a b
      by (induction b) (auto simp: page_events_def Suc_diff_le)
    with 2 have "fetches (trace w') = maxPages" by (simp del: upt_Suc)
    with 1 2 show "r = None \<and> trace w' = concat (map (page_events ps) [1 ..< Suc maxPages])
        \<and> fetches (trace w') = maxPages" by blast
  qed
  show ?thesis unfolding sel fst_conv snd_conv using bound exact by (rule conjI)
qed

theorem C3_page_cap_witness:
  "(\<forall>p v. \<exists>res v'. always_next p v = (Inr res, v') \<and> nextPageExists res)
   \<and> fst (fetchAllBookingPages_run always_next [] 3 ()) = None
   \<and> fetches (trace (snd (fetchAllBookingPages_run always_next [] 3 ()))) = 3"
proof -
  have h: "\<forall>p v. \<exists>res v'. always_next p v = (Inr res, v') \<and> nextPageExists res"
    by (simp add: always_next_def)
  with C3_page_cap [of always_next "[]" 3 "()"] show ?thesis by blast
qed

text \<open>
  C10. A run of \<^verbatim>\<open>fetchAllBookingPages\<close> that returns: when the loop stopped because
  the upstream reported no next page, \<open>totalPages\<close> is the number of pages fetched,
  and one pause fewer was made; when it stopped at the cap with a next page still
  announced, \<open>totalPages\<close> is the number of pages fetched plus one, and the pause was
  made after the last page too (it is the last event).
\<close>

theorem C10_totalPages:
  assumes "fetchAllBookingPages_run f ps maxPages u = (None, w)"
  shows "fetchAllBookingPages f ps maxPages u
           = (Inr \<lparr>bookings = allBookings w, totalPages' = totalPages w\<rparr>, world w, trace w)
       \<and> (\<not> hasMorePages w \<longrightarrow>
            totalPages w = fetches (trace w) \<and> Suc (delays (trace w)) = fetches (trace w))
       \<and> (hasMorePages w \<longrightarrow>
            maxPages < currentPage w \<and> totalPages w = fetches (trace w) + 1 \<and>
            delays (trace w) = fetches (trace w) \<and>
            (0 < maxPages \<longrightarrow> fetches (trace w) = maxPages \<and> last (trace w) = Delay))"
proof -
  from assms have run: "fetch_loop f ps maxPages (walk_init u) = (None, w)"
    by (simp add: fetchAllBookingPages_run_def)
  from fetch_loop_inv [OF walk_inv_init run]
  have inv: "walk_inv w" and cap: "hasMorePages w \<longrightarrow> maxPages < currentPage w"
    by simp_all
  from fetch_loop_bound [OF run] have le: "fetches (trace w) \<le> maxPages"
    by (simp add: walk_init_def)
  have 1: "fetchAllBookingPages f ps maxPages u
           = (Inr \<lparr>bookings = allBookings w, totalPages' = totalPages w\<rparr>, world w, trace w)"
    using assms by (simp add: fetchAllBookingPages_def)
  have 2: "\<not> hasMorePages w \<longrightarrow>
            totalPages w = fetches (trace w) \<and> Suc (delays (trace w)) = fetches (trace w)"
    using inv by (simp add: walk_inv_def)
  have 3: "hasMorePages w \<longrightarrow>
            maxPages < currentPage w \<and> totalPages w = fetches (trace w) + 1 \<and>
            delays (trace w) = fetches (trace w) \<and>
            (0 < maxPages \<longrightarrow> fetches (trace w) = maxPages \<and> last (trace w) = Delay)"
  proof
    assume h: "hasMorePages w"
    with inv cap le have a: "maxPages < currentPage w" "totalPages w = fetches (trace w) + 1"
      "delays (trace w) = fetches (trace w)" "fetches (trace w) = maxPages"
      "trace w = [] \<or> last (trace w) = Delay"
      by (auto simp: walk_inv_def)
    { assume "0 < maxPages"
      with a have "trace w \<noteq> []" by auto
      with a have "last (trace w) = Delay" by simp }
    with a show "maxPages < currentPage w \<and> totalPages w = fetches (trace w) + 1 \<and>
            delays (trace w) = fetches (trace w) \<and>
            (0 < maxPages \<longrightarrow> fetches (trace w) = maxPages \<and> last (trace w) = Delay)"
      by simp
  qed
  from 1 2 3 show ?thesis by simp
qed

theorem C10_totalPages_witness:
  "fetchAllBookingPages always_next [] 2 ()
     = (Inr \<lparr>bookings = [0, 0], totalPages' = 3\<rparr>, (),
        [Fetch [(''page'', JNum 1)], Delay, Fetch [(''page'', JNum 2)], Delay])
   \<and> fetchAllBookingPages two_pages [] 5 ()
     = (Inr \<lparr>bookings = [0, 0], totalPages' = 2\<rparr>, (),
        [Fetch [(''page'', JNum 1)], Delay, Fetch [(''page'', JNum 2)]])"
proof -
  have capped: "fetchAllBookingPages_run always_next [] 2 () =
     (None, \<lparr>allBookings = [0, 0], currentPage = 3, hasMorePages = True, totalPages = 3,
             world = (),
             trace = [Fetch [(''page'', JNum 1)], Delay, Fetch [(''page'', JNum 2)], Delay]\<rparr>)"
    by (simp add: fetchAllBookingPages_run_def walk_init_def fetch_loop.simps always_next_def)
  have ended: "fetchAllBookingPages_run two_pages [] 5 () =
     (None, \<lparr>allBookings = [0, 0], currentPage = 2, hasMorePages = False, totalPages = 2,
             world = (),
             trace = [Fetch [(''page'', JNum 1)], Delay, Fetch [(''page'', JNum 2)]]\<rparr>)"
    by (simp add: fetchAllBookingPages_run_def walk_init_def fetch_loop.simps two_pages_def)
  from C10_totalPages [OF capped] C10_totalPages [OF ended] show ?thesis by simp
qed

section \<open>Properties of the view assemblers\<close>

text \<open>
  C2. In the overview, calendar, movements, housekeeping and revenue views, for all
  arrays that the upstream calls return, no record of any collection of the
  response has the status "cancelled".
\<close>

theorem C2_no_cancelled:
  "(\<forall>b \<in> set (ov_current (overview_view cur arr dep))
        \<union> set (ov_arrivals (overview_view cur arr dep))
        \<union> set (ov_departures (overview_view cur arr dep)). status b \<noteq> JStr ''cancelled'')
   \<and> (\<forall>b \<in> set (calendar_view arr dep cur). status b \<noteq> JStr ''cancelled'')
   \<and> (\<forall>b \<in> set (mv_checkIns (movements_view arr dep))
        \<union> set (mv_checkOuts (movements_view arr dep)). status b \<noteq> JStr ''cancelled'')
   \<and> (\<forall>b \<in> set (hk_departures (housekeeping_view date cur dep arr))
        \<union> set (hk_arrivals (housekeeping_view date cur dep arr))
        \<union> set (hk_stayovers (housekeeping_view date cur dep arr)). status b \<noteq> JStr ''cancelled'')
   \<and> (\<forall>b \<in> set (rv_bookings (revenue_view dep)). status b \<noteq> JStr ''cancelled'')"
proof -
  have cal: "\<forall>b \<in> set (calendar_view arr dep cur). status b \<noteq> JStr ''cancelled''"
  proof
    fix b assume "b \<in> set (calendar_view arr dep cur)"
    with bookingMap_subset have "b \<in> set (filter not_cancelled (arr @ dep @ cur))"
      unfolding calendar_view_def by blast
    then show "status b \<noteq> JStr ''cancelled''" by (auto simp: not_cancelled_def)
  qed
  have ov: "\<forall>b \<in> set (ov_current (overview_view cur arr dep))
        \<union> set (ov_arrivals (overview_view cur arr dep))
        \<union> set (ov_departures (overview_view cur arr dep)). status b \<noteq> JStr ''cancelled''"
    by (auto simp: overview_view_def not_cancelled_def Let_def)
  have mv: "\<forall>b \<in> set (mv_checkIns (movements_view arr dep))
        \<union> set (mv_checkOuts (movements_view arr dep)). status b \<noteq> JStr ''cancelled''"
    by (auto simp: movements_view_def not_cancelled_def Let_def)
  have hk: "\<forall>b \<in> set (hk_departures (housekeeping_view date cur dep arr))
        \<union> set (hk_arrivals (housekeeping_view date cur dep arr))
        \<union> set (hk_stayovers (housekeeping_view date cur dep arr)). status b \<noteq> JStr ''cancelled''"
    by (auto simp: housekeeping_view_def not_cancelled_def Let_def)
  have rv: "\<forall>b \<in> set (rv_bookings (revenue_view dep)). status b \<noteq> JStr ''cancelled''"
    by (auto simp: revenue_view_def not_cancelled_def Let_def)
  from ov cal mv hk rv show ?thesis by blast
qed

theorem C2_no_cancelled_witness:
  "confirmed_example \<in> set (ov_current
       (overview_view [cancelled_example, confirmed_example] [] []))
   \<and> confirmed_example \<in> set (calendar_view [] [] [cancelled_example, confirmed_example])
   \<and> confirmed_example \<in> set (hk_stayovers
       (housekeeping_view ''2024-05-10'' [cancelled_example, confirmed_example] [] []))
   \<and> status confirmed_example \<noteq> JStr ''cancelled''
   \<and> cancelled_example \<notin> set (ov_current
       (overview_view [cancelled_example, confirmed_example] [] []))
   \<and> cancelled_example \<notin> set (calendar_view [] [] [cancelled_example, confirmed_example])"
proof -
  have 1: "confirmed_example \<in> set (ov_current
       (overview_view [cancelled_example, confirmed_example] [] []))"
    by (simp add: overview_view_def Let_def not_cancelled_def confirmed_example_def cancelled_example_def)
  have 2: "confirmed_example \<in> set (calendar_view [] [] [cancelled_example, confirmed_example])"
    by (simp add: calendar_view_def not_cancelled_def confirmed_example_def
        cancelled_example_def bookingMap_def map_values_def)
  have 3: "confirmed_example \<in> set (hk_stayovers
       (housekeeping_view ''2024-05-10'' [cancelled_example, confirmed_example] [] []))"
    by (simp add: housekeeping_view_def Let_def not_cancelled_def confirmed_example_def
        cancelled_example_def)
  have 4: "status cancelled_example = JStr ''cancelled''"
    by (simp add: cancelled_example_def)
  from 1 2 3 4
    C2_no_cancelled [of "[cancelled_example, confirmed_example]" "[]" "[]" "''2024-05-10''"]
    C2_no_cancelled [of "[]" "[]" "[cancelled_example, confirmed_example]" "''2024-05-10''"]
  show ?thesis by blast
qed


declare bit_length.simps [simp del]

text \<open>
  Rules that evaluate the rounding and the parsing on literals.
\<close>

lemma floor_rat_numeral:
  "\<lfloor>(numeral a :: rat) / numeral b\<rfloor> = numeral a div numeral b"
  "\<lfloor>- (numeral a :: rat) / numeral b\<rfloor> = - numeral a div numeral b"
  "\<lfloor>- ((numeral a :: rat) / numeral b)\<rfloor> = - numeral a div numeral b"
  "\<lfloor>(1 :: rat) / numeral b\<rfloor> = 1 div numeral b"
  "\<lfloor>- (1 :: rat) / numeral b\<rfloor> = - 1 div numeral b"
  "\<lfloor>- ((1 :: rat) / numeral b)\<rfloor> = - 1 div numeral b"
  using floor_divide_of_int_eq [of "numeral a" "numeral b", where ?'a = rat]
    floor_divide_of_int_eq [of "- numeral a" "numeral b", where ?'a = rat]
    floor_divide_of_int_eq [of 1 "numeral b", where ?'a = rat]
    floor_divide_of_int_eq [of "- 1" "numeral b", where ?'a = rat]
  by simp_all

lemma ceiling_rat_numeral:
  "\<lceil>(numeral a :: rat) / numeral b\<rceil> = - (- numeral a div numeral b)"
  "\<lceil>(1 :: rat) / numeral b\<rceil> = - (- 1 div numeral b)"
  by (simp_all add: ceiling_def floor_rat_numeral)

lemmas double_eval = round_double_def floor_log2_def bit_length.simps pow2_def
  round_half_even_def Let_def floor_rat_numeral ceiling_rat_numeral

lemmas parse_eval = parseFloat_def parse_unsigned_def decimal_value_def decimal_def
  digit_val_def exponent_def scale_def is_ws_def is_digit_def ws2_def ws3_def




text \<open>
  \<^verbatim>\<open>parseFloat\<close> reads the longest decimal literal at the start of the string, after
  the white space (U+00A0 among it), and rounds it to the nearest double:
  \<^verbatim>\<open>'1e400'\<close> is \<^verbatim>\<open>Infinity\<close>, \<^verbatim>\<open>'9007199254740993'\<close> is 9007199254740992, and
  \<^verbatim>\<open>'0.1'\<close> is the double 3602879701896397 / 2^55.
\<close>

lemma parseFloat_examples:
  "parseFloat (JStr ''12.50'') = Fin (25 / 2)"
  "parseFloat (JStr '' 42abc'') = Fin 42"
  "parseFloat (JStr ''-3'') = Fin (- 3)"
  "parseFloat (JStr ''+1.5e3'') = Fin 1500"
  "parseFloat (JStr ''.5'') = Fin (1 / 2)"
  "parseFloat (JStr ''1e'') = Fin 1"
  "parseFloat (JStr [CHR 0xC2, CHR 0xA0, CHR ''5'']) = Fin 5"
  "parseFloat (JStr [CHR 0xA0, CHR ''5'']) = Fin 5"
  "parseFloat (JStr [CHR 0xE2, CHR 0x80, CHR 0xA8, CHR 0x09, CHR ''5'']) = Fin 5"
  "parseFloat (JStr ''Infinity'') = PosInf"
  "parseFloat (JStr ''-Infinity'') = NegInf"
  "parseFloat (JStr ''1e400'') = PosInf"
  "parseFloat (JStr ''9007199254740993'') = Fin 9007199254740992"
  by (simp_all add: parse_eval double_eval)




lemma js_add_overflow:
  "js_add (Fin (2 ^ 1023)) (Fin (2 ^ 1023)) = PosInf"
  by (simp add: double_eval)

lemma revenue_totals_overflow:
  "revenue_totals [paid (JStr ''1e400'') (JStr ''1e400'')] =
     \<lparr>totalPrice = PosInf, totalDeposit = PosInf, bookingCount = 1, outstanding = NaN\<rparr>"
  by (simp add: revenue_totals_def revenue_step_def paid_def parseFloat_examples or_zero_def
      js_sub_def)



text \<open>
  The list of stayovers of the housekeeping view holds exactly the current records
  that are not cancelled and whose departure is not the query date.
\<close>

lemma hk_stayovers_iff:
  "c \<in> set (hk_stayovers (housekeeping_view date cur dep arr)) \<longleftrightarrow>
     c \<in> set cur \<and> status c \<noteq> JStr ''cancelled'' \<and> departure c \<noteq> JStr date"
  by (auto simp: housekeeping_view_def Let_def not_cancelled_def)

text \<open>
  C5, at a concrete input. Query date 2024-05-10; the current-occupancy query
  returns one record that departs on 2024-05-11, the departures query one other
  record that departs on 2024-05-10. The list of stayovers holds the one current
  record, which is classified by its departure date; the count
  \<^verbatim>\<open>summary.stayovers\<close> is \<^verbatim>\<open>current.length - departures.length\<close>, which is 0.
\<close>

theorem C5_stayovers_count_diverges:
  "hk_stayovers (housekeeping_view ''2024-05-10'' [confirmed_example] [departing_example] [])
     = [confirmed_example]
   \<and> hk_stayovers_count
       (housekeeping_view ''2024-05-10'' [confirmed_example] [departing_example] []) = 0
   \<and> hk_stayovers (housekeeping_view ''2024-05-10'' [departing_example] [] []) = []"
  by (simp add: housekeeping_view_def Let_def not_cancelled_def confirmed_example_def
      departing_example_def)

section \<open>Properties of the validating handlers\<close>

lemma fetch_loop_mono:
  "fetch_loop f ps mp w = (r, w') \<Longrightarrow> fetches (trace w) \<le> fetches (trace w')"
proof (induction w rule: fetch_loop_induct [where f = f and ps = ps and mp = mp])
  case (stop w)
  then show ?case by (auto simp: fetch_loop_stop)
next
  case (throw w e u)
  then show ?case by (auto simp: fetch_loop_throw)
next
  case (final w res u)
  then show ?case by (auto simp: fetch_loop_last)
next
  case (more w res u)
  from more have "fetch_loop f ps mp (next_walk ps w res u) = (r, w')"
    by (simp add: fetch_loop_next next_walk_def)
  then have "fetches (trace (next_walk ps w res u)) \<le> fetches (trace w')"
    by (rule more.IH)
  then show ?case by (simp add: next_walk_def)
qed

lemma fetchAllBookingPages_first_call:
  assumes "0 < maxPages"
  shows "snd (snd (fetchAllBookingPages f ps maxPages u)) \<noteq> []"
proof -
  let ?w = "walk_init u :: ('a, 'b) walk"
  obtain r w' where run: "fetch_loop f ps maxPages ?w = (r, w')"
    by (cases "fetch_loop f ps maxPages ?w")
  obtain x v where fr: "f (page_params ps ?w) (world ?w) = (x, v)"
    by (cases "f (page_params ps ?w) (world ?w)")
  from assms have c: "hasMorePages ?w" "currentPage ?w \<le> maxPages"
    by (simp_all add: walk_init_def)
  have "0 < fetches (trace w')"
  proof (cases x)
    case (Inl e)
    with fetch_loop_throw [OF c] fr run show ?thesis by auto
  next
    case (Inr res)
    show ?thesis
    proof (cases "nextPageExists res")
      case True
      with fetch_loop_next [OF c] fr Inr run
      have "fetch_loop f ps maxPages (next_walk ps ?w res v) = (r, w')"
        by (simp add: next_walk_def)
      from fetch_loop_mono [OF this] show ?thesis by (simp add: next_walk_def)
    next
      case False
      with fetch_loop_last [OF c] fr Inr run show ?thesis by auto
    qed
  qed
  then have "trace w' \<noteq> []" by auto
  with run show ?thesis
    by (cases r) (simp_all add: fetchAllBookingPages_def fetchAllBookingPages_run_def)
qed

text \<open>
  C8. A search request with neither \<open>q\<close> nor \<open>checkIn\<close>, and a range request without
  \<open>from\<close> or without \<open>to\<close>, is answered with status 400 and the error message, the
  world is left as it was, and no upstream call is made. A request that passes the
  validation makes at least one upstream call.
\<close>

theorem C8_validation_before_fetch:
  "(\<not> truthy q \<and> \<not> truthy checkIn \<longrightarrow>
      api_search f q checkIn checkOut u =
        (Failed 400 ''Required: q (search term) or checkIn date'', u, []))
   \<and> (truthy q \<or> truthy checkIn \<longrightarrow> snd (snd (api_search f q checkIn checkOut u)) \<noteq> [])
   \<and> (\<not> truthy from \<or> \<not> truthy to \<longrightarrow>
      getBookings_range f from to type u =
        (Failed 400 ''Required: from and to dates (YYYY-MM-DD format)'', u, []))
   \<and> (truthy from \<and> truthy to \<longrightarrow> snd (snd (getBookings_range f from to type u)) \<noteq> [])"
proof -
  have call: "snd (snd (case fetchAllBookingPages f ps n u of
                 (Inl (Error m), u', t) \<Rightarrow> (Failed 500 m, u', t)
               | (Inr result, u', t) \<Rightarrow> (Success (g result), u', t))) =
              snd (snd (fetchAllBookingPages f ps n u))" for ps n g
    by (auto split: prod.splits sum.splits error.splits)
  have 1: "\<not> truthy q \<and> \<not> truthy checkIn \<longrightarrow>
      api_search f q checkIn checkOut u =
        (Failed 400 ''Required: q (search term) or checkIn date'', u, [])"
    by (simp add: api_search_def)
  have 2: "truthy q \<or> truthy checkIn \<longrightarrow> snd (snd (api_search f q checkIn checkOut u)) \<noteq> []"
  proof
    assume a: "truthy q \<or> truthy checkIn"
    have first: "snd (snd (fetchAllBookingPages f ps 10 u)) \<noteq> []" for ps
      by (rule fetchAllBookingPages_first_call) simp
    from a have "snd (snd (api_search f q checkIn checkOut u)) =
        snd (snd (fetchAllBookingPages f
          (set_if ''arrivalTo'' checkOut (set_if ''arrivalFrom'' checkIn
            (set_if ''searchString'' q [(''propertyId'', JNum PROPERTY_ID)]))) 10 u))"
      unfolding api_search_def Let_def by (auto simp: call)
    with first show "snd (snd (api_search f q checkIn checkOut u)) \<noteq> []" by simp
  qed
  have 3: "\<not> truthy from \<or> \<not> truthy to \<longrightarrow>
      getBookings_range f from to type u =
        (Failed 400 ''Required: from and to dates (YYYY-MM-DD format)'', u, [])"
    by (auto simp: getBookings_range_def)
  have 4: "truthy from \<and> truthy to \<longrightarrow> snd (snd (getBookings_range f from to type u)) \<noteq> []"
  proof
    assume a: "truthy from \<and> truthy to"
    have first: "snd (snd (fetchAllBookingPages f ps 30 u)) \<noteq> []" for ps
      by (rule fetchAllBookingPages_first_call) simp
    from a have "\<exists>ps. snd (snd (getBookings_range f from to type u)) =
        snd (snd (fetchAllBookingPages f ps 30 u))"
      unfolding getBookings_range_def Let_def by (auto simp: call)
    with first show "snd (snd (getBookings_range f from to type u)) \<noteq> []" by metis
  qed
  from 1 2 3 4 show ?thesis by blast
qed

theorem C8_validation_before_fetch_witness:
  "\<not> truthy None \<and> \<not> truthy (Some '''')
   \<and> api_search always_next None (Some '''') (Some ''2024-05-10'') ()
       = (Failed 400 ''Required: q (search term) or checkIn date'', (), [])
   \<and> getBookings_range always_next (Some ''2024-05-01'') None None ()
       = (Failed 400 ''Required: from and to dates (YYYY-MM-DD format)'', (), [])
   \<and> truthy (Some ''smith'')
   \<and> snd (snd (api_search always_next (Some ''smith'') None None ())) \<noteq> []"
proof -
  have h: "\<not> truthy None" "\<not> truthy (Some '''')" "truthy (Some ''smith'')"
    by (simp_all add: truthy_def)
  from h
    C8_validation_before_fetch [of None "Some ''''" always_next "Some ''2024-05-10''" "()"
      "Some ''2024-05-01''" None None]
    C8_validation_before_fetch [of "Some ''smith''" None always_next None "()" None None None]
  show ?thesis by blast
qed

section \<open>Properties of the upstream query client\<close>

lemma via_proxy_simps:
  "useDirectApi (snd (via_proxy http req c)) = useDirectApi c"
  "calls (snd (via_proxy http req c)) = calls c @ [Proxy]"
  "fst (via_proxy http req c) = fst (fetchBeds24ViaProxy http req (net c))"
  by (simp_all add: via_proxy_def split: prod.splits)

lemma fetchBeds24_off:
  "\<not> useDirectApi c \<Longrightarrow> fetchBeds24 http token req c = via_proxy http req c"
  by (simp add: fetchBeds24_def)

lemma fetchBeds24_direct_throws:
  assumes "useDirectApi c" and "token \<noteq> []"
    and "fetchBeds24Direct http req (net c) = (Inl e, n')"
  shows "fetchBeds24 http token req c =
           via_proxy http req (c\<lparr>useDirectApi := False, net := n', calls := calls c @ [Direct]\<rparr>)"
  using assms by (simp add: fetchBeds24_def)

lemma step_off:
  assumes "step http token c c'" and "\<not> useDirectApi c"
  shows "\<not> useDirectApi c' \<and> calls c' = calls c @ [Proxy]"
  using assms
proof (induction rule: step.induct)
  case (query c req)
  then show ?case by (simp add: fetchBeds24_off via_proxy_simps)
qed

lemma steps_off:
  assumes "(step http token)\<^sup>*\<^sup>* c c'" and "\<not> useDirectApi c"
  shows "\<not> useDirectApi c' \<and> (\<exists>k. calls c' = calls c @ replicate k Proxy)"
  using assms
proof (induction rule: rtranclp_induct)
  case base
  have "calls c = calls c @ replicate 0 Proxy" by simp
  with base show ?case by blast
next
  case (step y z)
  then obtain k where off: "\<not> useDirectApi y" and k: "calls y = calls c @ replicate k Proxy"
    by blast
  from step_off [OF step.hyps(2) off] k
  have "\<not> useDirectApi z" and "calls z = calls c @ replicate (Suc k) Proxy"
    by (simp_all add: replicate_append_same)
  then show ?case by blast
qed

text \<open>
  C9. When a direct call throws (the flag is set and the token is not empty), the
  query that made it leaves \<open>useDirectApi\<close> false; after any further queries of the
  process the flag is still false, every one of them was sent to the proxy, and
  any next query returns what the proxy call returns.
\<close>

theorem C9_never_back_to_direct:
  assumes "useDirectApi c" and "token \<noteq> []"
    and "fst (fetchBeds24Direct http req (net c)) = Inl e"
    and "c1 = snd (fetchBeds24 http token req c)"
    and "(step http token)\<^sup>*\<^sup>* c1 c2"
  shows "\<not> useDirectApi c1 \<and> \<not> useDirectApi c2
       \<and> (\<exists>k. calls c2 = calls c1 @ replicate k Proxy)
       \<and> fetchBeds24 http token req' c2 = via_proxy http req' c2
       \<and> fst (fetchBeds24 http token req' c2) = fst (fetchBeds24ViaProxy http req' (net c2))"
proof -
  from assms(3) obtain n' where "fetchBeds24Direct http req (net c) = (Inl e, n')"
    by (cases "fetchBeds24Direct http req (net c)") simp
  from fetchBeds24_direct_throws [OF assms(1) assms(2) this] assms(4)
  have off1: "\<not> useDirectApi c1" by (simp add: via_proxy_simps)
  from steps_off [OF assms(5) off1]
  have off2: "\<not> useDirectApi c2" and k: "\<exists>k. calls c2 = calls c1 @ replicate k Proxy"
    by simp_all
  from off2 have "fetchBeds24 http token req' c2 = via_proxy http req' c2"
    by (rule fetchBeds24_off)
  with off1 off2 k show ?thesis by (simp add: via_proxy_simps)
qed

theorem C9_never_back_to_direct_witness:
  "useDirectApi \<lparr>useDirectApi = True, net = (), calls = []\<rparr>
   \<and> fst (fetchBeds24Direct failing_direct () ()) = Inl (Error ''Invalid token'')
   \<and> \<not> useDirectApi (snd (fetchBeds24 failing_direct ''t'' ()
        (snd (fetchBeds24 failing_direct ''t'' () \<lparr>useDirectApi = True, net = (), calls = []\<rparr>))))
   \<and> calls (snd (fetchBeds24 failing_direct ''t'' ()
        (snd (fetchBeds24 failing_direct ''t'' () \<lparr>useDirectApi = True, net = (), calls = []\<rparr>))))
       = [Direct, Proxy, Proxy]"
proof -
  let ?c = "\<lparr>useDirectApi = True, net = (), calls = []\<rparr>"
  let ?c1 = "snd (fetchBeds24 failing_direct ''t'' () ?c)"
  let ?c2 = "snd (fetchBeds24 failing_direct ''t'' () ?c1)"
  have a: "useDirectApi ?c" "''t'' \<noteq> []" by simp_all
  have b: "fst (fetchBeds24Direct failing_direct () (net ?c)) = Inl (Error ''Invalid token'')"
    by (simp add: fetchBeds24Direct_def failing_direct_def truthy_def)
  have "step failing_direct ''t'' ?c1 ?c2" by (rule step.query)
  then have s: "(step failing_direct ''t'')\<^sup>*\<^sup>* ?c1 ?c2" by (rule r_into_rtranclp)
  have c: "calls ?c2 = [Direct, Proxy, Proxy]"
    by (simp add: fetchBeds24_def fetchBeds24Direct_def fetchBeds24ViaProxy_def via_proxy_def
        failing_direct_def truthy_def)
  from C9_never_back_to_direct [OF a b refl s] b c show ?thesis by simp
qed

text \<open>
  C7, as the claim states it, at a direct response with \<^verbatim>\<open>success: false\<close> and an
  error message: the query call \<^verbatim>\<open>fetchBeds24\<close> does not fail, it returns the payload
  of the proxy.
\<close>

theorem C7_failure_not_propagated:
  "fst (fetchBeds24 failing_direct ''t'' () \<lparr>useDirectApi = True, net = (), calls = []\<rparr>)
     = Inr \<lparr>data = Plain \<lparr>success = None, error = None, has_data = True, content = ()\<rparr>,
            http_status = 200\<rparr>"
  by (simp add: fetchBeds24_def fetchBeds24Direct_def fetchBeds24ViaProxy_def via_proxy_def
      failing_direct_def truthy_def)

text \<open>
  C7, amended. For a direct response whose payload has \<^verbatim>\<open>success === false\<close> or a
  truthy \<^verbatim>\<open>error\<close>, \<^verbatim>\<open>fetchBeds24Direct\<close> throws an error with the payload's message,
  or with the message "API request failed" when the payload has none.
  \<^verbatim>\<open>fetchBeds24\<close> catches it: it sets \<open>useDirectApi\<close> to false, sends the request to the
  proxy, and its outcome is the outcome of the proxy call.
\<close>

theorem C7_direct_failure_falls_back:
  assumes "http Direct req (net c) = (Inr (st, d), n')"
    and "success d = Some False \<or> truthy (error d)"
  shows "fetchBeds24Direct http req (net c) =
           (Inl (Error (if truthy (error d) then the (error d) else ''API request failed'')), n')
       \<and> (useDirectApi c \<and> token \<noteq> [] \<longrightarrow>
            fst (fetchBeds24 http token req c) = fst (fetchBeds24ViaProxy http req n')
          \<and> \<not> useDirectApi (snd (fetchBeds24 http token req c))
          \<and> calls (snd (fetchBeds24 http token req c)) = calls c @ [Direct, Proxy])"
proof -
  from assms have direct: "fetchBeds24Direct http req (net c) =
      (Inl (Error (if truthy (error d) then the (error d) else ''API request failed'')), n')"
    by (simp add: fetchBeds24Direct_def)
  have fallback: "useDirectApi c \<and> token \<noteq> [] \<longrightarrow>
            fst (fetchBeds24 http token req c) = fst (fetchBeds24ViaProxy http req n')
          \<and> \<not> useDirectApi (snd (fetchBeds24 http token req c))
          \<and> calls (snd (fetchBeds24 http token req c)) = calls c @ [Direct, Proxy]"
  proof
    assume "useDirectApi c \<and> token \<noteq> []"
    then have "fetchBeds24 http token req c =
        via_proxy http req (c\<lparr>useDirectApi := False, net := n', calls := calls c @ [Direct]\<rparr>)"
      using direct by (simp add: fetchBeds24_direct_throws)
    then show "fst (fetchBeds24 http token req c) = fst (fetchBeds24ViaProxy http req n')
          \<and> \<not> useDirectApi (snd (fetchBeds24 http token req c))
          \<and> calls (snd (fetchBeds24 http token req c)) = calls c @ [Direct, Proxy]"
      by (simp add: via_proxy_simps)
  qed
  from direct fallback show ?thesis by blast
qed

theorem C7_direct_failure_falls_back_witness:
  "fetchBeds24Direct failing_direct () () = (Inl (Error ''Invalid token''), ())
   \<and> \<not> useDirectApi (snd (fetchBeds24 failing_direct ''t'' ()
         \<lparr>useDirectApi = True, net = (), calls = []\<rparr>))
   \<and> calls (snd (fetchBeds24 failing_direct ''t'' ()
         \<lparr>useDirectApi = True, net = (), calls = []\<rparr>)) = [Direct, Proxy]"
proof -
  let ?d = "\<lparr>success = Some False, error = Some ''Invalid token'', has_data = False,
             content = ()\<rparr>"
  let ?c = "\<lparr>useDirectApi = True, net = (), calls = []\<rparr>"
  have a: "failing_direct Direct () (net ?c) = (Inr (200, ?d), ())"
    by (simp add: failing_direct_def)
  have b: "success ?d = Some False \<or> truthy (error ?d)" by simp
  have c: "truthy (error ?d)" "the (error ?d) = ''Invalid token''"
    by (simp_all add: truthy_def)
  from C7_direct_failure_falls_back
         [where http = failing_direct and req = "()" and c = ?c and st = 200 and d = ?d
            and n' = "()" and token = "''t''", OF a b] c
  show ?thesis by simp
qed

section \<open>Day numbers and calendar dates\<close>

declare digits_of.simps [simp del]

lemma div_eqI: "b * k \<le> a \<Longrightarrow> a < b * k + b \<Longrightarrow> 0 < b \<Longrightarrow> a div b = (k::int)"
  by (rule int_div_pos_eq [where r = "a - b * k"]) simp_all

lemma era_days_split:
  fixes c q s :: int
  assumes c: "0 \<le> c" "c \<le> 3" and q: "0 \<le> q" "q \<le> 24" and s: "0 \<le> s" "s \<le> 1460"
    and doe: "doe = 36524 * c + 1461 * q + s" and r: "1461 * q + s \<le> 36523"
  shows "0 \<le> yoe_of doe \<and> yoe_of doe \<le> 399 \<and> 0 \<le> doy_of doe \<and> doy_of doe \<le> 365"
proof -
  define i :: int where "i = (if 1460 \<le> 24 * c + q + s then 1 else 0)"
  have i: "0 \<le> i" "i \<le> 1" "1460 * i \<le> 24 * c + q + s" "24 * c + q + s < 1460 * i + 1460"
    using c q s by (auto simp: i_def)
  have d1460: "doe div 1460 = 25 * c + q + i"
    using i doe by (intro div_eqI) simp_all
  have le: "doe \<le> 146095" using doe r c by simp
  have d36524: "doe div 36524 = c"
    using doe c q s r by (intro div_eqI) simp_all
  have d146096: "doe div 146096 = 0"
    using doe le c q s by (intro div_eqI) simp_all
  define j where "j = (s - i) div 365"
  have si: "0 \<le> s - i" "s - i \<le> 1459" using i s c q by (auto simp: i_def split: if_splits)
  have j: "0 \<le> j" "j \<le> 3" "365 * j \<le> s - i" "s - i < 365 * j + 365"
    unfolding j_def using si by (simp_all add: pos_imp_zdiv_nonneg_iff) 
  have yoe: "yoe_of doe = 100 * c + 4 * q + j"
    unfolding yoe_of_def d1460 d36524 d146096 using j doe by (intro div_eqI) simp_all
  have y4: "yoe_of doe div 4 = 25 * c + q" unfolding yoe using j by (intro div_eqI) simp_all
  have y100: "yoe_of doe div 100 = c" unfolding yoe using j q by (intro div_eqI) simp_all
  have doy: "doy_of doe = s - 365 * j" unfolding doy_of_def y4 y100 unfolding yoe using doe by simp
  show ?thesis unfolding doy unfolding yoe using c q j i by simp
qed

lemma yoe_doy_bounds:
  assumes "0 \<le> doe" and "doe \<le> 146096"
  shows "0 \<le> yoe_of doe \<and> yoe_of doe \<le> 399 \<and> 0 \<le> doy_of doe \<and> doy_of doe \<le> 365"
proof (cases "doe = 146096")
  case True
  then show ?thesis by (simp add: yoe_of_def doy_of_def)
next
  case False
  with assms have le: "doe \<le> 146095" by simp
  define c where "c = doe div 36524"
  define r where "r = doe mod 36524"
  define q where "q = r div 1461"
  define s where "s = r mod 1461"
  have r: "0 \<le> r" "r \<le> 36523" by (simp_all add: r_def)
  have doe: "doe = 36524 * c + r" by (simp add: c_def r_def)
  have "doe div 36524 \<le> 146095 div 36524" using le by (rule zdiv_mono1) simp
  then have c: "0 \<le> c" "c \<le> 3" using assms(1) by (simp_all add: c_def pos_imp_zdiv_nonneg_iff)
  have s: "0 \<le> s" "s \<le> 1460" by (simp_all add: s_def)
  have rq: "r = 1461 * q + s" by (simp add: q_def s_def)
  have "r div 1461 \<le> 36523 div 1461" using r(2) by (rule zdiv_mono1) simp
  then have q: "0 \<le> q" "q \<le> 24" using r by (simp_all add: q_def pos_imp_zdiv_nonneg_iff)
  from rq r have "1461 * q + s \<le> 36523" by simp
  moreover from doe rq have "doe = 36524 * c + 1461 * q + s" by simp
  ultimately show ?thesis using c q s by (intro era_days_split [of c q s]) simp_all
qed

lemma civil_roundtrip:
  assumes "civil_from_days n = (y, m, d)"
  shows "days_from_civil y m 1 + d - 1 = n"
proof -
  define z where "z = n + 719468"
  define era where "era = z div 146097"
  define doe where "doe = z - era * 146097"
  have doe_mod: "doe = z mod 146097" by (simp add: doe_def era_def minus_div_mult_eq_mod)
  then have b: "0 \<le> doe" "doe \<le> 146096" by simp_all
  define yoe where "yoe = yoe_of doe"
  define doy where "doy = doy_of doe"
  define mp where "mp = (5 * doy + 2) div 153"
  from yoe_doy_bounds [OF b] have yb: "0 \<le> yoe" "yoe \<le> 399" and db: "0 \<le> doy" "doy \<le> 365"
    by (simp_all add: yoe_def doy_def)
  have mpb: "0 \<le> mp" "mp \<le> 11" using db by (simp_all add: mp_def pos_imp_zdiv_nonneg_iff)
  have cfd: "civil_from_days n =
      ((if (if mp < 10 then mp + 3 else mp - 9) \<le> 2 then yoe + era * 400 + 1 else yoe + era * 400),
       (if mp < 10 then mp + 3 else mp - 9),
       doy - (153 * mp + 2) div 5 + 1)"
    unfolding civil_from_days_def Let_def mp_def doy_def doy_of_def yoe_def yoe_of_def
      doe_def era_def z_def by (rule refl)
  have era': "(yoe + era * 400) div 400 = era" using yb by (intro div_eqI) simp_all
  have doy_eq: "doe = yoe * 365 + yoe div 4 - yoe div 100 + doy"
    by (simp add: doy_def doy_of_def yoe_def)
  show ?thesis
  proof (cases "mp < 10")
    case True
    with mpb cfd assms have "y = yoe + era * 400" "m = mp + 3" "d = doy - (153 * mp + 2) div 5 + 1"
      by simp_all
    with True mpb era' doy_eq show ?thesis
      by (simp add: days_from_civil_def Let_def doe_def z_def)
  next
    case False
    with mpb cfd assms have "y = yoe + era * 400 + 1" "m = mp - 9" "d = doy - (153 * mp + 2) div 5 + 1"
      by simp_all
    with False mpb era' doy_eq show ?thesis
      by (simp add: days_from_civil_def Let_def doe_def z_def)
  qed
qed

text \<open>
  On a host with a fixed offset from UTC, whatever the offset, the end date of the
  calendar view is the start date shifted by the day count in the calendar.
\<close>

lemma setDate_fixed:
  "setDate (Fixed off) t (getDate (Fixed off) t + days) = t + days * msPerDay"
proof -
  obtain y m d where c: "civil_from_days ((t + off) div msPerDay) = (y, m, d)"
    by (cases "civil_from_days ((t + off) div msPerDay)")
  from civil_roundtrip [OF c]
  have "days_from_civil y m 1 + (d + days) - 1 = (t + off) div msPerDay + days"
    by simp
  then have "(days_from_civil y m 1 + (d + days) - 1) * msPerDay + (t + off) mod msPerDay
          = ((t + off) div msPerDay + days) * msPerDay + (t + off) mod msPerDay"
    by (rule arg_cong)
  also have "\<dots> = ((t + off) div msPerDay * msPerDay + (t + off) mod msPerDay) + days * msPerDay"
    by (simp only: distrib_right add.assoc add.commute add.left_commute)
  also have "\<dots> = t + off + days * msPerDay"
    by (simp only: div_mult_mod_eq)
  finally show ?thesis using c by (simp add: setDate_def getDate_def Let_def)
qed

lemma calendar_end_fixed_offset:
  assumes "parse_ymd start = Some c"
  shows "calendar_end (Fixed off) start days_q = format_en_CA (addDays c (days_or_7 days_q))"
proof -
  obtain y m d where c: "c = (y, m, d)" by (cases c)
  have "(days_from_civil y m d * msPerDay - 6 * msPerHour + days_or_7 days_q * msPerDay
           + 6 * msPerHour) div msPerDay
        = ((days_from_civil y m d + days_or_7 days_q) * msPerDay) div msPerDay"
    by (simp add: algebra_simps)
  also have "\<dots> = days_from_civil y m d + days_or_7 days_q"
    by (simp add: msPerDay_def)
  finally show ?thesis using assms c
    by (simp add: calendar_end_def new_Date_BD_def setDate_fixed toLocaleDateString_BD_def
        addDays_def Let_def)
qed

section \<open>The end date of the calendar view on two hosts\<close>

lemma calendar_end_utc_march:
  "calendar_end host_utc ''2024-03-09'' (Some 2) = Some ''2024-03-11''"
  by code_simp

lemma calendar_end_new_york_march:
  "calendar_end host_new_york ''2024-03-09'' (Some 2) = Some ''2024-03-10''"
  by code_simp

lemma calendar_end_utc_january:
  "calendar_end host_utc ''2024-01-31'' (Some 1) = Some ''2024-02-01''"
  by code_simp

lemma calendar_end_new_york_january:
  "calendar_end host_new_york ''2024-01-31'' (Some 1) = Some ''2024-02-01''"
  by code_simp

text \<open>
  C6, at a concrete input. The window of two days from 2024-03-09 ends on
  2024-03-11 when the host runs in UTC, and on 2024-03-10 when the host runs in the
  zone of New York: \<^verbatim>\<open>getDate\<close> and \<^verbatim>\<open>setDate\<close> work in the local time of the host,
  which moves its clock forward by an hour inside the window, so that the shifted
  instant is 23:00 of the day before in Asia/Dhaka. The example of the claim,
  one day from 2024-01-31, ends on 2024-02-01 on both hosts.
\<close>

theorem C6_end_date_depends_on_host:
  "calendar_end host_utc ''2024-03-09'' (Some 2) = Some ''2024-03-11''
   \<and> calendar_end host_new_york ''2024-03-09'' (Some 2) = Some ''2024-03-10''
   \<and> calendar_end host_utc ''2024-01-31'' (Some 1) = Some ''2024-02-01''
   \<and> calendar_end host_new_york ''2024-01-31'' (Some 1) = Some ''2024-02-01''"
  using calendar_end_utc_march calendar_end_new_york_march calendar_end_utc_january
    calendar_end_new_york_january
  by (intro conjI)

end
